theory Spec2Isabelle
  imports Main "HOL-Library.Word"
begin

unbundle bit_operations_syntax

section \<open>The message core of bus1 (ipc/bus1/message.c)\<close>

text \<open>
  The six functions of \<^verbatim>\<open>message.c\<close> are embedded as HOL functions over explicit
  state. A pointer that may be \<^verbatim>\<open>NULL\<close> is an \<open>option\<close>; the \<^verbatim>\<open>int\<close> result of a
  function (0 or a negative errno) is a \<open>retval\<close>; a function that dereferences a
  \<^verbatim>\<open>NULL\<close> pointer or writes past an allocation has no result at all, which the model
  writes as \<open>None\<close>. The fields \<^verbatim>\<open>n_bytes\<close>, \<^verbatim>\<open>n_handles\<close>, \<^verbatim>\<open>n_fds\<close> and every
  \<^verbatim>\<open>size_t\<close> are 64-bit words, so that the sums and products of the source wrap as they
  do in C.
\<close>

subsection \<open>Kernel primitives\<close>

type_synonym size_t = "64 word"
type_synonym u64 = "64 word"
type_synonym u32 = "32 word"

datatype errno = EINVAL | ENOMEM | EMFILE | EFAULT | EDQUOT | EXFULL

datatype retval = OK | ERR errno

text \<open>The kernel's \<^verbatim>\<open>ALIGN(x, a)\<close>: \<^verbatim>\<open>(x + (a - 1)) & ~(a - 1)\<close>.\<close>

definition ALIGN :: "size_t \<Rightarrow> size_t \<Rightarrow> size_t" where
  "ALIGN x a = (x + (a - 1)) AND NOT (a - 1)"

type_synonym struct_file = nat
type_synonym bus1_user = nat

text \<open>
  A slot of the current process's descriptor table: unused, reserved by
  \<^verbatim>\<open>get_unused_fd_flags\<close> but not yet bound, or bound to a file by \<^verbatim>\<open>fd_install\<close>.
  The table is a list whose length is the process's descriptor limit.
\<close>

datatype fdslot = Unused | Reserved | Installed struct_file

record kernel =
  kmalloc_limit :: nat
  fdt :: "fdslot list"
  f_count :: "struct_file \<Rightarrow> nat"
  user_refs :: "bus1_user \<Rightarrow> nat"
  warnings :: nat

text \<open>
  \<^verbatim>\<open>kmalloc(size, ...)\<close> returns \<^verbatim>\<open>NULL\<close> when the request exceeds what the allocator
  can satisfy; \<open>kmalloc_limit\<close> is that bound. Every buffer of \<^verbatim>\<open>message.c\<close> that the
  model allocates is freed before the function returns, or is the message itself.
\<close>

definition kmalloc :: "kernel \<Rightarrow> size_t \<Rightarrow> bool" where
  "kmalloc k sz = (unat sz \<le> kmalloc_limit k)"

definition WARN_ON :: "bool \<Rightarrow> kernel \<Rightarrow> kernel" where
  "WARN_ON c k = (if c then k\<lparr>warnings := Suc (warnings k)\<rparr> else k)"

text \<open>
  \<^verbatim>\<open>get_unused_fd_flags\<close> reserves the lowest unused descriptor, or fails with
  \<^verbatim>\<open>-EMFILE\<close> when the table is full.
\<close>

definition get_unused_fd_flags :: "fdslot list \<Rightarrow> errno + (nat \<times> fdslot list)" where
  "get_unused_fd_flags t =
     (case find (\<lambda>fd. t ! fd = Unused) [0..<length t] of
        None \<Rightarrow> Inl EMFILE
      | Some fd \<Rightarrow> Inr (fd, t[fd := Reserved]))"

definition put_unused_fd :: "nat \<Rightarrow> fdslot list \<Rightarrow> fdslot list" where
  "put_unused_fd fd t = t[fd := Unused]"

definition fd_install :: "nat \<Rightarrow> struct_file \<Rightarrow> fdslot list \<Rightarrow> fdslot list" where
  "fd_install fd f t = t[fd := Installed f]"

definition get_file :: "struct_file \<Rightarrow> (struct_file \<Rightarrow> nat) \<Rightarrow> (struct_file \<Rightarrow> nat)" where
  "get_file f refs = refs(f := Suc (refs f))"

definition fput :: "struct_file \<Rightarrow> (struct_file \<Rightarrow> nat) \<Rightarrow> (struct_file \<Rightarrow> nat)" where
  "fput f refs = refs(f := refs f - 1)"

subsection \<open>Collaborators of message.c: user quota, pool, inflight handles\<close>

record usage =
  u_bytes :: nat
  u_handles :: nat
  u_fds :: nat

record bus1_user_quota =
  q_max :: usage
  q_stats :: "bus1_user \<Rightarrow> usage"

text \<open>
  Modelled from the spec: \<^verbatim>\<open>bus1_user_quota_charge\<close> of \<^verbatim>\<open>user.c\<close>, which is not among
  the sources. The ledger holds, per user, the bytes, handles and descriptors in flight;
  a charge that would pass a per-user bound fails (QuotaExceeded, \<^verbatim>\<open>-EDQUOT\<close>) and
  changes nothing.
\<close>

definition bus1_user_quota_charge ::
  "bus1_user_quota \<Rightarrow> bus1_user \<Rightarrow> size_t \<Rightarrow> size_t \<Rightarrow> size_t \<Rightarrow> errno + bus1_user_quota" where
  "bus1_user_quota_charge q u nb nh nf =
     (let s = q_stats q u in
      if u_bytes s + unat nb \<le> u_bytes (q_max q) \<and>
         u_handles s + unat nh \<le> u_handles (q_max q) \<and>
         u_fds s + unat nf \<le> u_fds (q_max q)
      then Inr (q\<lparr>q_stats := (q_stats q)(u := \<lparr>u_bytes = u_bytes s + unat nb,
                                               u_handles = u_handles s + unat nh,
                                               u_fds = u_fds s + unat nf\<rparr>)\<rparr>)
      else Inl EDQUOT)"

text \<open>
  Modelled from the spec: \<^verbatim>\<open>bus1_user_quota_discharge\<close> of \<^verbatim>\<open>user.c\<close>: takes the
  amounts back off the user's entry of the ledger.
\<close>

definition bus1_user_quota_discharge ::
  "bus1_user_quota \<Rightarrow> bus1_user \<Rightarrow> size_t \<Rightarrow> size_t \<Rightarrow> size_t \<Rightarrow> bus1_user_quota" where
  "bus1_user_quota_discharge q u nb nh nf =
     (let s = q_stats q u in
      q\<lparr>q_stats := (q_stats q)(u := \<lparr>u_bytes = u_bytes s - unat nb,
                                     u_handles = u_handles s - unat nh,
                                     u_fds = u_fds s - unat nf\<rparr>)\<rparr>)"

text \<open>
  Modelled from the spec: \<^verbatim>\<open>bus1_user_ref\<close> and \<^verbatim>\<open>bus1_user_unref\<close> of \<^verbatim>\<open>user.c\<close>:
  take and drop one reference on a user object. \<^verbatim>\<open>bus1_user_unref\<close> accepts \<^verbatim>\<open>NULL\<close>
  and always returns \<^verbatim>\<open>NULL\<close>.
\<close>

definition bus1_user_ref :: "bus1_user \<Rightarrow> kernel \<Rightarrow> bus1_user option \<times> kernel" where
  "bus1_user_ref u k = (Some u, k\<lparr>user_refs := (user_refs k)(u := Suc (user_refs k u))\<rparr>)"

definition bus1_user_unref :: "bus1_user option \<Rightarrow> kernel \<Rightarrow> bus1_user option \<times> kernel" where
  "bus1_user_unref uo k =
     (case uo of
        None \<Rightarrow> (None, k)
      | Some u \<Rightarrow> (None, k\<lparr>user_refs := (user_refs k)(u := user_refs k u - 1)\<rparr>))"

record bus1_pool_slice =
  ps_offset :: size_t
  ps_size :: size_t

datatype iov_base = Ids "u64 list" | Fds "nat list"

record kvec =
  iov_base :: iov_base
  iov_len :: size_t

text \<open>
  The pool of a peer: the bytes still free, the offset the next slice gets, the slices
  in use, and the writes made into slices so far, each as (slice, offset in the slice,
  data).
\<close>

record bus1_pool =
  pool_free :: nat
  pool_next :: size_t
  pool_slices :: "bus1_pool_slice list"
  pool_writes :: "(bus1_pool_slice \<times> size_t \<times> kvec) list"

text \<open>
  Modelled from the spec: \<^verbatim>\<open>bus1_pool_alloc\<close> of \<^verbatim>\<open>pool.c\<close>, which is not among the
  sources: a slice of the requested size, or PoolExhausted (\<^verbatim>\<open>-EXFULL\<close>) when the pool
  has fewer bytes free.
\<close>

definition bus1_pool_alloc :: "bus1_pool \<Rightarrow> size_t \<Rightarrow> errno + (bus1_pool_slice \<times> bus1_pool)" where
  "bus1_pool_alloc p sz =
     (if unat sz \<le> pool_free p
      then (let sl = \<lparr>ps_offset = pool_next p, ps_size = sz\<rparr> in
            Inr (sl, p\<lparr>pool_free := pool_free p - unat sz,
                       pool_next := pool_next p + sz,
                       pool_slices := sl # pool_slices p\<rparr>))
      else Inl EXFULL)"

text \<open>
  Modelled from the spec: \<^verbatim>\<open>bus1_pool_release_kernel\<close> of \<^verbatim>\<open>pool.c\<close>: gives the slice
  back to the pool and returns \<^verbatim>\<open>NULL\<close>.
\<close>

definition bus1_pool_release_kernel ::
  "bus1_pool \<Rightarrow> bus1_pool_slice \<Rightarrow> bus1_pool_slice option \<times> bus1_pool" where
  "bus1_pool_release_kernel p sl =
     (None, if sl \<in> set (pool_slices p)
            then p\<lparr>pool_free := pool_free p + unat (ps_size sl),
                   pool_slices := remove1 sl (pool_slices p)\<rparr>
            else p)"

text \<open>
  Modelled from the spec: \<^verbatim>\<open>bus1_pool_write_kvec\<close> of \<^verbatim>\<open>pool.c\<close>, called with one
  vector: writes \<open>total_len\<close> bytes at \<open>offset\<close> into the slice. It fails (WriteFailure,
  \<^verbatim>\<open>-EFAULT\<close>) when the slice is not one of the pool's or the bytes do not fit in it.
\<close>

definition bus1_pool_write_kvec ::
  "bus1_pool \<Rightarrow> bus1_pool_slice \<Rightarrow> size_t \<Rightarrow> kvec \<Rightarrow> size_t \<Rightarrow> errno + bus1_pool" where
  "bus1_pool_write_kvec p sl off vec total_len =
     (if sl \<in> set (pool_slices p) \<and> unat off + unat total_len \<le> unat (ps_size sl)
      then Inr (p\<lparr>pool_writes := pool_writes p @ [(sl, off, vec)]\<rparr>)
      else Inl EFAULT)"

text \<open>
  Modelled from the spec: the inflight handle tracker of \<^verbatim>\<open>handle.c\<close>, which is not
  among the sources. It holds the resolved handle ids in blocks (the inline block, then
  the overflow blocks); \<^verbatim>\<open>bus1_handle_inflight_walk\<close> hands out the block at the cursor
  and its length and advances the cursor, and returns 0 when no block is left.
\<close>

record bus1_handle_inflight =
  hi_n_entries :: size_t
  hi_blocks :: "u64 list list"

definition bus1_handle_inflight_init :: "size_t \<Rightarrow> bus1_handle_inflight" where
  "bus1_handle_inflight_init n = \<lparr>hi_n_entries = n, hi_blocks = []\<rparr>"

definition bus1_handle_inflight_walk ::
  "bus1_handle_inflight \<Rightarrow> nat \<Rightarrow> size_t \<times> nat \<times> u64 list" where
  "bus1_handle_inflight_walk h pos =
     (if pos < length (hi_blocks h)
      then (of_nat (length (hi_blocks h ! pos)), Suc pos, hi_blocks h ! pos)
      else (0, pos, []))"

record bus1_peer_info =
  pool :: bus1_pool
  quota :: bus1_user_quota

subsection \<open>The message\<close>

datatype bus1_queue_node_type = BUS1_QUEUE_NODE_MESSAGE_NORMAL | BUS1_QUEUE_NODE_MESSAGE_SILENT

record bus1_message_data =
  destination :: u64
  uid :: u32
  gid :: u32
  pid :: u32
  tid :: u32
  offset :: u64
  n_bytes :: u64
  n_handles :: u64
  n_fds :: u64

record bus1_message_transaction =
  tx_next :: "nat option"
  tx_handle :: "nat option"
  tx_raw_peer :: "nat option"

text \<open>
  \<open>files\<close> is the array of \<^verbatim>\<open>n_fds\<close> file pointers that follows the message in its
  allocation, as a function of the index; only indices below \<^verbatim>\<open>n_fds\<close> are read.
\<close>

record bus1_message =
  qnode :: bus1_queue_node_type
  data :: bus1_message_data
  transaction :: bus1_message_transaction
  user :: "bus1_user option"
  slice :: "bus1_pool_slice option"
  files :: "nat \<Rightarrow> struct_file option"
  handles :: bus1_handle_inflight

text \<open>
  Modelled from the spec: the sentinel \<^verbatim>\<open>BUS1_OFFSET_INVALID\<close> of the absent header
  (an offset no slice has), taken as the all-ones word.
\<close>

definition BUS1_OFFSET_INVALID :: u64 where
  "BUS1_OFFSET_INVALID = - 1"

subsection \<open>bus1_message_new\<close>

text \<open>
  \<^verbatim>\<open>sizeof(*message)\<close> and \<^verbatim>\<open>bus1_handle_batch_inline_size\<close> come from absent headers
  and are parameters. The only failure is that of \<^verbatim>\<open>kmalloc\<close>.
\<close>

definition bus1_message_new ::
  "size_t \<Rightarrow> (size_t \<Rightarrow> size_t) \<Rightarrow> kernel \<Rightarrow> size_t \<Rightarrow> size_t \<Rightarrow> size_t \<Rightarrow> bool
     \<Rightarrow> errno + bus1_message" where
  "bus1_message_new sizeof_message bus1_handle_batch_inline_size k nb n_files nh silent =
     (let base_size = ALIGN (sizeof_message + bus1_handle_batch_inline_size nh) 8;
          fds_size = n_files * 8
      in if \<not> kmalloc k (base_size + fds_size) then Inl ENOMEM
         else Inr \<lparr>qnode = (if silent then BUS1_QUEUE_NODE_MESSAGE_SILENT
                                      else BUS1_QUEUE_NODE_MESSAGE_NORMAL),
                   data = \<lparr>destination = 0, uid = - 1, gid = - 1, pid = 0, tid = 0,
                           offset = BUS1_OFFSET_INVALID,
                           n_bytes = nb, n_handles = nh, n_fds = n_files\<rparr>,
                   transaction = \<lparr>tx_next = None, tx_handle = None, tx_raw_peer = None\<rparr>,
                   user = None,
                   slice = None,
                   files = (\<lambda>_. None),
                   handles = bus1_handle_inflight_init nh\<rparr>)"

subsection \<open>bus1_message_free\<close>

text \<open>The loop of lines 101 to 103: \<^verbatim>\<open>fput\<close> on every file the message holds.\<close>

function free_files :: "nat \<Rightarrow> nat \<Rightarrow> (nat \<Rightarrow> struct_file option) \<Rightarrow> (struct_file \<Rightarrow> nat) \<Rightarrow> (struct_file \<Rightarrow> nat)" where
  "free_files n i fs refs =
     (if i < n
      then free_files n (Suc i) fs (case fs i of None \<Rightarrow> refs | Some f \<Rightarrow> fput f refs)
      else refs)"
  by pat_completeness auto
termination
  by (relation "measure (\<lambda>(n, i, fs, refs). n - i)") auto

text \<open>
  The message's storage, its handle batch and its queue node cease to exist; what
  remains observable is the warnings and the file references dropped.
\<close>

definition bus1_message_free :: "bus1_message option \<Rightarrow> kernel \<Rightarrow> bus1_message option \<times> kernel" where
  "bus1_message_free mo k =
     (case mo of
        None \<Rightarrow> (None, k)
      | Some m \<Rightarrow>
          (let k1 = WARN_ON (slice m \<noteq> None) k;
               k2 = WARN_ON (user m \<noteq> None) k1;
               k3 = WARN_ON (tx_raw_peer (transaction m) \<noteq> None) k2;
               k4 = WARN_ON (tx_handle (transaction m) \<noteq> None) k3;
               k5 = WARN_ON (tx_next (transaction m) \<noteq> None) k4
           in (None, k5\<lparr>f_count := free_files (unat (n_fds (data m))) 0 (files m) (f_count k5)\<rparr>)))"

subsection \<open>bus1_message_allocate_locked\<close>

text \<open>
  Lines 145 to 147: the size of the slice that is requested from the pool.
  \<^verbatim>\<open>sizeof(u64)\<close> is 8 and \<^verbatim>\<open>sizeof(int)\<close> is 4.
\<close>

definition slice_size :: "bus1_message \<Rightarrow> size_t" where
  "slice_size m =
     ALIGN (n_bytes (data m)) 8 +
     ALIGN (n_handles (data m) * 8) 8 +
     ALIGN (n_fds (data m) + 4) 8"

text \<open>
  The user handed to Bind is a user object, not \<^verbatim>\<open>NULL\<close>: the charge looks its ledger
  entry up. \<^verbatim>\<open>lockdep_assert_held\<close> checks the caller's lock in debugging kernels and
  has no effect on the state.
\<close>

definition bus1_message_allocate_locked ::
  "bus1_message \<Rightarrow> bus1_peer_info \<Rightarrow> bus1_user \<Rightarrow> kernel
     \<Rightarrow> retval \<times> bus1_message \<times> bus1_peer_info \<times> kernel" where
  "bus1_message_allocate_locked m peer_info u k =
     (if user m \<noteq> None \<or> slice m \<noteq> None
      then (ERR EINVAL, m, peer_info, WARN_ON True k)
      else
        case bus1_user_quota_charge (quota peer_info) u
               (n_bytes (data m)) (n_handles (data m)) (n_fds (data m)) of
          Inl r \<Rightarrow> (ERR r, m, peer_info, k)
        | Inr q \<Rightarrow>
            (case bus1_pool_alloc (pool peer_info) (slice_size m) of
               Inl e \<Rightarrow>
                 (ERR e, m,
                  peer_info\<lparr>quota := bus1_user_quota_discharge q u
                      (n_bytes (data m)) (n_handles (data m)) (n_fds (data m))\<rparr>,
                  k)
             | Inr (sl, p) \<Rightarrow>
                 (let (ur, k') = bus1_user_ref u k
                  in (OK,
                      m\<lparr>user := ur, slice := Some sl,
                        data := (data m)\<lparr>offset := ps_offset sl\<rparr>\<rparr>,
                      peer_info\<lparr>pool := p, quota := q\<rparr>,
                      k'))))"

subsection \<open>bus1_message_deallocate_locked\<close>

text \<open>
  With a slice but no user the source hands \<^verbatim>\<open>NULL\<close> to
  \<^verbatim>\<open>bus1_user_quota_discharge\<close>, which needs the user: no result.
\<close>

definition bus1_message_deallocate_locked ::
  "bus1_message \<Rightarrow> bus1_peer_info \<Rightarrow> kernel
     \<Rightarrow> (bus1_message \<times> bus1_peer_info \<times> kernel) option" where
  "bus1_message_deallocate_locked m peer_info k =
     (case slice m of
        Some sl \<Rightarrow>
          (case user m of
             None \<Rightarrow> None
           | Some u \<Rightarrow>
               (let q = bus1_user_quota_discharge (quota peer_info) u
                          (n_bytes (data m)) (n_handles (data m)) (n_fds (data m));
                    (sr, p) = bus1_pool_release_kernel (pool peer_info) sl;
                    (ur, k') = bus1_user_unref (user m) k
                in Some (m\<lparr>slice := sr, user := ur\<rparr>, peer_info\<lparr>pool := p, quota := q\<rparr>, k')))
      | None \<Rightarrow>
          (let (ur, k') = bus1_user_unref (user m) k
           in Some (m\<lparr>user := ur\<rparr>, peer_info, k')))"

subsection \<open>bus1_message_install_handles\<close>

text \<open>
  The loop of lines 211 to 221, with the cursor \<open>pos\<close> and the running \<open>offset\<close>.
  A \<^verbatim>\<open>NULL\<close> slice handed to the pool is a \<^verbatim>\<open>NULL\<close> dereference there: no result.
\<close>

function install_handles_loop ::
  "bus1_message \<Rightarrow> bus1_pool \<Rightarrow> nat \<Rightarrow> size_t \<Rightarrow> (retval \<times> bus1_pool) option" where
  "install_handles_loop m p pos off =
     (let (n, pos', ids) = bus1_handle_inflight_walk (handles m) pos in
      if n > 0 then
        (let vec = \<lparr>iov_base = Ids ids, iov_len = n * 8\<rparr> in
         case slice m of
           None \<Rightarrow> None
         | Some sl \<Rightarrow>
             (case bus1_pool_write_kvec p sl off vec (iov_len vec) of
                Inl r \<Rightarrow> Some (ERR r, p)
              | Inr p' \<Rightarrow> install_handles_loop m p' pos' (off + n * 8)))
      else Some (OK, p))"
  by pat_completeness auto
termination
  by (relation "measure (\<lambda>(m, p, pos, off). length (hi_blocks (handles m)) - pos)")
     (auto simp: bus1_handle_inflight_walk_def split: if_splits)

definition bus1_message_install_handles ::
  "bus1_message \<Rightarrow> bus1_peer_info \<Rightarrow> (retval \<times> bus1_message \<times> bus1_peer_info) option" where
  "bus1_message_install_handles m peer_info =
     (case install_handles_loop m (pool peer_info) 0 (ALIGN (n_bytes (data m)) 8) of
        None \<Rightarrow> None
      | Some (r, p) \<Rightarrow> Some (r, m, peer_info\<lparr>pool := p\<rparr>))"

subsection \<open>bus1_message_install_fds\<close>

text \<open>Line 250: \<^verbatim>\<open>while (i--) put_unused_fd(fds[i])\<close>.\<close>

fun put_fds_down :: "nat \<Rightarrow> nat list \<Rightarrow> fdslot list \<Rightarrow> fdslot list" where
  "put_fds_down 0 fds t = t"
| "put_fds_down (Suc i) fds t = put_fds_down i fds (put_unused_fd (fds ! i) t)"

text \<open>
  The loop of lines 247 to 256. \<open>fds\<close> is the array from \<^verbatim>\<open>kmalloc\<close>; storing past
  its end has no result.
\<close>

function reserve_fds ::
  "nat \<Rightarrow> nat \<Rightarrow> nat list \<Rightarrow> fdslot list \<Rightarrow> ((errno + nat list) \<times> fdslot list) option" where
  "reserve_fds n i fds t =
     (if i < n then
        (case get_unused_fd_flags t of
           Inl r \<Rightarrow> Some (Inl r, put_fds_down i fds t)
         | Inr (fd, t') \<Rightarrow>
             if i < length fds then reserve_fds n (Suc i) (fds[i := fd]) t' else None)
      else Some (Inr fds, t))"
  by pat_completeness auto
termination
  by (relation "measure (\<lambda>(n, i, fds, t). n - i)") auto

text \<open>The loop under the label \<^verbatim>\<open>error\<close>, lines 275 and 276.\<close>

function put_fds_up :: "nat \<Rightarrow> nat \<Rightarrow> nat list \<Rightarrow> fdslot list \<Rightarrow> fdslot list" where
  "put_fds_up n i fds t =
     (if i < n then put_fds_up n (Suc i) fds (put_unused_fd (fds ! i) t) else t)"
  by pat_completeness auto
termination
  by (relation "measure (\<lambda>(n, i, fds, t). n - i)") auto

text \<open>
  The loop of lines 268 and 269. \<^verbatim>\<open>get_file\<close> on an empty slot of \<^verbatim>\<open>files\<close> is a
  \<^verbatim>\<open>NULL\<close> dereference: no result.
\<close>

function install_files ::
  "nat \<Rightarrow> nat \<Rightarrow> nat list \<Rightarrow> (nat \<Rightarrow> struct_file option) \<Rightarrow> fdslot list \<Rightarrow> (struct_file \<Rightarrow> nat)
     \<Rightarrow> (fdslot list \<times> (struct_file \<Rightarrow> nat)) option" where
  "install_files n i fds fs t refs =
     (if i < n then
        (case fs i of
           None \<Rightarrow> None
         | Some f \<Rightarrow> install_files n (Suc i) fds fs (fd_install (fds ! i) f t) (get_file f refs))
      else Some (t, refs))"
  by pat_completeness auto
termination
  by (relation "measure (\<lambda>(n, i, fds, fs, t, refs). n - i)") auto

text \<open>
  The array \<open>fds\<close> has room for as many \<^verbatim>\<open>int\<close>s as fit in the \<^verbatim>\<open>n_fds * sizeof(int)\<close>
  bytes asked of \<^verbatim>\<open>kmalloc\<close>; its initial content is never read.
\<close>

definition bus1_message_install_fds ::
  "bus1_message \<Rightarrow> bus1_peer_info \<Rightarrow> kernel
     \<Rightarrow> (retval \<times> bus1_message \<times> bus1_peer_info \<times> kernel) option" where
  "bus1_message_install_fds m peer_info k =
     (let n = n_fds (data m) in
      if \<not> kmalloc k (n * 4) then Some (ERR ENOMEM, m, peer_info, k)
      else
        case reserve_fds (unat n) 0 (replicate (unat (n * 4) div 4) 0) (fdt k) of
          None \<Rightarrow> None
        | Some (Inl r, t) \<Rightarrow> Some (ERR r, m, peer_info, k\<lparr>fdt := t\<rparr>)
        | Some (Inr fds, t) \<Rightarrow>
            (let vec = \<lparr>iov_base = Fds fds, iov_len = n * 4\<rparr>;
                 off = ALIGN (n_bytes (data m)) 8 + ALIGN (n_handles (data m) * 8) 8
             in case slice m of
                  None \<Rightarrow> None
                | Some sl \<Rightarrow>
                    (case bus1_pool_write_kvec (pool peer_info) sl off vec (iov_len vec) of
                       Inl r \<Rightarrow>
                         Some (ERR r, m, peer_info, k\<lparr>fdt := put_fds_up (unat n) 0 fds t\<rparr>)
                     | Inr p \<Rightarrow>
                         (case install_files (unat n) 0 fds (files m) t (f_count k) of
                            None \<Rightarrow> None
                          | Some (t', refs) \<Rightarrow>
                              Some (OK, m, peer_info\<lparr>pool := p\<rparr>,
                                    k\<lparr>fdt := t', f_count := refs\<rparr>)))))"

subsection \<open>Sequences of Bind and Unbind\<close>

text \<open>
  A caller that binds and unbinds one message any number of times. A step has no result
  where \<^verbatim>\<open>bus1_message_deallocate_locked\<close> has none.
\<close>

datatype lifecycle_op = Bind bus1_user | Unbind

fun run_op ::
  "lifecycle_op \<Rightarrow> bus1_message \<times> bus1_peer_info \<times> kernel
     \<Rightarrow> (bus1_message \<times> bus1_peer_info \<times> kernel) option" where
  "run_op (Bind u) (m, peer_info, k) = Some (snd (bus1_message_allocate_locked m peer_info u k))"
| "run_op Unbind (m, peer_info, k) = bus1_message_deallocate_locked m peer_info k"

fun run_ops ::
  "lifecycle_op list \<Rightarrow> bus1_message \<times> bus1_peer_info \<times> kernel
     \<Rightarrow> (bus1_message \<times> bus1_peer_info \<times> kernel) option" where
  "run_ops [] s = Some s"
| "run_ops (x # xs) s = (case run_op x s of None \<Rightarrow> None | Some s' \<Rightarrow> run_ops xs s')"

subsection \<open>What an observer of the descriptor table and of the pool sees\<close>

text \<open>
  The descriptors that are unused in the table \<open>t\<close> and in use in the table \<open>t'\<close>:
  the slots a call has newly opened.
\<close>

definition new_fds :: "fdslot list \<Rightarrow> fdslot list \<Rightarrow> nat list" where
  "new_fds t t' = filter (\<lambda>fd. fd < length t \<and> t ! fd = Unused \<and> t' ! fd \<noteq> Unused) [0..<length t']"

text \<open>
  The offset of the \<open>j\<close>-th block of handle ids in the slice, in the words of the
  specification: the running offset starts at \<^verbatim>\<open>align8(n_bytes)\<close> and advances by the
  byte length (8 times the number of ids) of each block written before.
\<close>

definition handle_block_offset :: "bus1_message \<Rightarrow> nat \<Rightarrow> size_t" where
  "handle_block_offset m j =
     ALIGN (n_bytes (data m)) 8 +
     sum_list (map (\<lambda>b. of_nat (length b) * 8) (take j (hi_blocks (handles m))))"

text \<open>The vector for the \<open>j\<close>-th block, and the write of that block as the pool records it.\<close>

definition handle_block_vec :: "bus1_message \<Rightarrow> nat \<Rightarrow> kvec" where
  "handle_block_vec m j =
     \<lparr>iov_base = Ids (hi_blocks (handles m) ! j),
      iov_len = of_nat (length (hi_blocks (handles m) ! j)) * 8\<rparr>"

definition handle_block_write ::
  "bus1_message \<Rightarrow> bus1_pool_slice \<Rightarrow> nat \<Rightarrow> bus1_pool_slice \<times> size_t \<times> kvec" where
  "handle_block_write m sl j = (sl, handle_block_offset m j, handle_block_vec m j)"

subsection \<open>Concrete states\<close>

text \<open>
  A process with eight descriptor slots, three of them in use; a peer with a pool of
  4096 free bytes and an empty ledger; and the message of the end-to-end scenario:
  16 bytes, one handle, two files.
\<close>

definition ex_kernel :: kernel where
  "ex_kernel = \<lparr>kmalloc_limit = 4096,
                fdt = [Installed 0, Installed 1, Installed 2, Unused, Unused, Unused, Unused, Unused],
                f_count = (\<lambda>_. 1), user_refs = (\<lambda>_. 1), warnings = 0\<rparr>"

definition ex_peer :: bus1_peer_info where
  "ex_peer = \<lparr>pool = \<lparr>pool_free = 4096, pool_next = 0, pool_slices = [], pool_writes = []\<rparr>,
              quota = \<lparr>q_max = \<lparr>u_bytes = 65536, u_handles = 256, u_fds = 64\<rparr>,
                       q_stats = (\<lambda>_. \<lparr>u_bytes = 0, u_handles = 0, u_fds = 0\<rparr>)\<rparr>\<rparr>"

definition ex_message :: bus1_message where
  "ex_message =
     \<lparr>qnode = BUS1_QUEUE_NODE_MESSAGE_NORMAL,
      data = \<lparr>destination = 0, uid = - 1, gid = - 1, pid = 0, tid = 0,
              offset = BUS1_OFFSET_INVALID, n_bytes = 16, n_handles = 1, n_fds = 2\<rparr>,
      transaction = \<lparr>tx_next = None, tx_handle = None, tx_raw_peer = None\<rparr>,
      user = None,
      slice = None,
      files = (\<lambda>i. if i < 2 then Some (10 + i) else None),
      handles = \<lparr>hi_n_entries = 1, hi_blocks = [ [42] ]\<rparr>\<rparr>"

text \<open>The same message once bound for user 1000 in \<open>ex_peer\<close>, and the peer after that.\<close>

definition ex_bound_message :: bus1_message where
  "ex_bound_message = fst (snd (bus1_message_allocate_locked ex_message ex_peer 1000 ex_kernel))"

definition ex_bound_peer :: bus1_peer_info where
  "ex_bound_peer = fst (snd (snd (bus1_message_allocate_locked ex_message ex_peer 1000 ex_kernel)))"

definition ex_bound_kernel :: kernel where
  "ex_bound_kernel = snd (snd (snd (bus1_message_allocate_locked ex_message ex_peer 1000 ex_kernel)))"

text \<open>A peer whose pool has only 20 bytes free.\<close>

definition ex_small_peer :: bus1_peer_info where
  "ex_small_peer = ex_peer\<lparr>pool := (pool ex_peer)\<lparr>pool_free := 20\<rparr>\<rparr>"

text \<open>A message that carries three files and nothing else.\<close>

definition ex_message_3fds :: bus1_message where
  "ex_message_3fds =
     ex_message\<lparr>data := (data ex_message)\<lparr>n_bytes := 0, n_handles := 0, n_fds := 3\<rparr>,
                files := (\<lambda>i. if i < 3 then Some (10 + i) else None),
                handles := \<lparr>hi_n_entries = 0, hi_blocks = []\<rparr>\<rparr>"

text \<open>The message as \<^verbatim>\<open>bus1_message_new\<close> leaves it, before files and handles are attached.\<close>

definition ex_new_message :: bus1_message where
  "ex_new_message = ex_message\<lparr>files := (\<lambda>_. None), handles := bus1_handle_inflight_init 1\<rparr>"

text \<open>The bound message installed: handles, then descriptors.\<close>

definition ex_handles_installed :: "retval \<times> bus1_message \<times> bus1_peer_info" where
  "ex_handles_installed = the (bus1_message_install_handles ex_bound_message ex_bound_peer)"

definition ex_fds_installed :: "retval \<times> bus1_message \<times> bus1_peer_info \<times> kernel" where
  "ex_fds_installed = the (bus1_message_install_fds ex_bound_message ex_bound_peer ex_bound_kernel)"

text \<open>The kernel when fewer than the 8 bytes of two descriptor numbers can be allocated.\<close>

definition ex_nomem_kernel :: kernel where
  "ex_nomem_kernel = ex_bound_kernel\<lparr>kmalloc_limit := 7\<rparr>"

text \<open>The kernel when the process has a single unused descriptor slot left.\<close>

definition ex_full_kernel :: kernel where
  "ex_full_kernel = ex_bound_kernel\<lparr>fdt := [Installed 0, Installed 1, Installed 2, Unused]\<rparr>"

text \<open>Bind of the message with three files, in the scenario's peer and kernel.\<close>

definition ex_bound_3fds :: "retval \<times> bus1_message \<times> bus1_peer_info \<times> kernel" where
  "ex_bound_3fds = bus1_message_allocate_locked ex_message_3fds ex_peer 1000 ex_kernel"

section \<open>Properties\<close>

subsection \<open>Helper lemmas\<close>

lemma usage_eta: "\<lparr>u_bytes = u_bytes s, u_handles = u_handles s, u_fds = u_fds s\<rparr> = s"
  by (cases s) simp

lemma discharge_charge:
  "bus1_user_quota_charge q u a b c = Inr q' \<Longrightarrow> bus1_user_quota_discharge q' u a b c = q"
  by (auto simp: bus1_user_quota_charge_def bus1_user_quota_discharge_def Let_def usage_eta
           split: if_splits)

lemma ex_allocate:
  "bus1_message_allocate_locked ex_message ex_peer 1000 ex_kernel =
     (OK, ex_bound_message, ex_bound_peer, ex_bound_kernel)"
  by (simp add: ex_bound_message_def ex_bound_peer_def ex_bound_kernel_def
        bus1_message_allocate_locked_def ex_message_def ex_peer_def
        bus1_user_quota_charge_def bus1_pool_alloc_def slice_size_def ALIGN_def Let_def
        bus1_user_ref_def)

lemma ex_bound_message_eq:
  "ex_bound_message =
     ex_message\<lparr>user := Some 1000, slice := Some \<lparr>ps_offset = 0, ps_size = 32\<rparr>,
                data := (data ex_message)\<lparr>offset := 0\<rparr>\<rparr>"
  by (simp add: ex_bound_message_def bus1_message_allocate_locked_def ex_message_def ex_peer_def
        bus1_user_quota_charge_def bus1_pool_alloc_def slice_size_def ALIGN_def Let_def
        bus1_user_ref_def)

lemma ex_bound_pool:
  "pool ex_bound_peer =
     \<lparr>pool_free = 4064, pool_next = 32,
      pool_slices = [\<lparr>ps_offset = 0, ps_size = 32\<rparr>], pool_writes = []\<rparr>"
  by (simp add: ex_bound_peer_def bus1_message_allocate_locked_def ex_message_def ex_peer_def
        bus1_user_quota_charge_def bus1_pool_alloc_def slice_size_def ALIGN_def Let_def
        bus1_user_ref_def)

lemma ex_bound_kernel_fields:
  "fdt ex_bound_kernel = fdt ex_kernel" "kmalloc_limit ex_bound_kernel = 4096"
  "f_count ex_bound_kernel = f_count ex_kernel"
  by (simp_all add: ex_bound_kernel_def bus1_message_allocate_locked_def ex_message_def ex_peer_def
        bus1_user_quota_charge_def bus1_pool_alloc_def slice_size_def ALIGN_def Let_def
        bus1_user_ref_def ex_kernel_def)

subsection \<open>Bind: the size of the slice\<close>

text \<open>
  Claim C1 says that Bind asks the pool for
  \<^verbatim>\<open>align8(n_bytes) + align8(n_handles * 8) + align8(n_fds * 4)\<close> bytes. Line 147 of the
  source adds \<^verbatim>\<open>sizeof(int)\<close> to \<^verbatim>\<open>n_fds\<close> where the claim multiplies. For the message
  with three files and nothing else, Bind takes a slice of 8 bytes where the claim's
  formula gives 16, and InstallFds on the message so bound fails: its 12 bytes of
  descriptor numbers do not fit.
\<close>

theorem slice_size_three_fds:
  "slice_size ex_message_3fds = 8 \<and>
   ALIGN (n_bytes (data ex_message_3fds)) 8 + ALIGN (n_handles (data ex_message_3fds) * 8) 8 +
     ALIGN (n_fds (data ex_message_3fds) * 4) 8 = 16 \<and>
   (case bus1_message_allocate_locked ex_message_3fds ex_peer 1000 ex_kernel of
      (r, m, p, k) \<Rightarrow>
        r = OK \<and> slice m = Some \<lparr>ps_offset = 0, ps_size = 8\<rparr> \<and>
        map_option fst (bus1_message_install_fds m p k) = Some (ERR EFAULT))"
  by (simp add: slice_size_def ex_message_3fds_def ex_message_def ALIGN_def
        bus1_message_allocate_locked_def ex_peer_def ex_kernel_def
        bus1_user_quota_charge_def bus1_pool_alloc_def Let_def bus1_user_ref_def
        bus1_message_install_fds_def kmalloc_def get_unused_fd_flags_def
        bus1_pool_write_kvec_def)

theorem slice_size_three_fds_witness:
  "slice_size ex_message_3fds = 8"
  by (rule slice_size_three_fds [THEN conjunct1])

subsection \<open>Bind: rollback of the charge\<close>

text \<open>
  Claim C3: when the charge of an unbound message succeeds and the pool then refuses the
  slice, Bind returns the pool's error after a discharge, for the same user, of the same
  three counts it charged; the ledger so discharged is the ledger before the call, and
  the message, the peer (its ledger and its pool) and the kernel state are exactly as
  they were.
\<close>

theorem allocate_pool_failure_restores_ledger:
  assumes "user m = None" and "slice m = None"
    and "bus1_user_quota_charge (quota peer_info) u
           (n_bytes (data m)) (n_handles (data m)) (n_fds (data m)) = Inr q"
    and "bus1_pool_alloc (pool peer_info) (slice_size m) = Inl e"
  shows "bus1_message_allocate_locked m peer_info u k =
           (ERR e, m,
            peer_info\<lparr>quota := bus1_user_quota_discharge q u
               (n_bytes (data m)) (n_handles (data m)) (n_fds (data m))\<rparr>, k) \<and>
         bus1_user_quota_discharge q u
            (n_bytes (data m)) (n_handles (data m)) (n_fds (data m)) = quota peer_info \<and>
         bus1_message_allocate_locked m peer_info u k = (ERR e, m, peer_info, k)"
  using assms by (simp add: bus1_message_allocate_locked_def discharge_charge)

theorem allocate_pool_failure_restores_ledger_witness:
  "bus1_message_allocate_locked ex_message ex_small_peer 1000 ex_kernel =
     (ERR EXFULL, ex_message, ex_small_peer, ex_kernel)"
proof -
  have u: "user ex_message = None" and s: "slice ex_message = None"
    by (simp_all add: ex_message_def)
  have c: "bus1_user_quota_charge (quota ex_small_peer) 1000
             (n_bytes (data ex_message)) (n_handles (data ex_message)) (n_fds (data ex_message))
           = Inr (quota ex_bound_peer)"
    by (simp add: ex_bound_peer_def bus1_message_allocate_locked_def ex_message_def ex_peer_def
          ex_small_peer_def bus1_user_quota_charge_def bus1_pool_alloc_def slice_size_def
          ALIGN_def Let_def bus1_user_ref_def)
  have a: "bus1_pool_alloc (pool ex_small_peer) (slice_size ex_message) = Inl EXFULL"
    by (simp add: ex_small_peer_def ex_peer_def ex_message_def bus1_pool_alloc_def
          slice_size_def ALIGN_def)
  show ?thesis
    by (rule allocate_pool_failure_restores_ledger [OF u s c a, THEN conjunct2, THEN conjunct2])
qed

subsection \<open>Bind on a bound message\<close>

text \<open>
  Claim C8: when the message's user or slice is already set, Bind returns
  \<^verbatim>\<open>-EINVAL\<close> (AlreadyBound) at once: the message and the peer, hence the ledger and
  the pool, are unchanged; the only effect is the warning of \<^verbatim>\<open>WARN_ON\<close>.
\<close>

theorem allocate_already_bound:
  assumes "user m \<noteq> None \<or> slice m \<noteq> None"
  shows "bus1_message_allocate_locked m peer_info u k =
           (ERR EINVAL, m, peer_info, k\<lparr>warnings := Suc (warnings k)\<rparr>)"
  using assms by (auto simp add: bus1_message_allocate_locked_def WARN_ON_def)

theorem allocate_already_bound_witness:
  "bus1_message_allocate_locked ex_bound_message ex_bound_peer 7 ex_bound_kernel =
     (ERR EINVAL, ex_bound_message, ex_bound_peer,
      ex_bound_kernel\<lparr>warnings := Suc (warnings ex_bound_kernel)\<rparr>)"
proof -
  have h: "user ex_bound_message \<noteq> None \<or> slice ex_bound_message \<noteq> None"
    by (simp add: ex_bound_message_eq)
  show ?thesis by (rule allocate_already_bound [OF h])
qed

subsection \<open>Bind then Unbind\<close>

text \<open>
  Claim C5: after a successful Bind for user \<open>u\<close>, the ledger is the old one charged
  with the message's three counts. A later Unbind of the bound message, in any state of
  the peer that has this ledger (the installers change the pool and the kernel state,
  never the ledger or the message), returns, discharges the same three counts for the
  same user, and leaves the ledger that was there before Bind. The message is then
  unbound, and directly after Bind the kernel state, with the reference on the user, is
  back as well.
\<close>

theorem allocate_deallocate_restores_ledger:
  assumes "bus1_message_allocate_locked m peer_info u k = (OK, m', peer_info', k')"
    and "quota peer_x = quota peer_info'"
  shows "bus1_user_quota_charge (quota peer_info) u
            (n_bytes (data m)) (n_handles (data m)) (n_fds (data m)) = Inr (quota peer_info') \<and>
         (\<exists>m'' peer_info'' k''.
            bus1_message_deallocate_locked m' peer_x k_x = Some (m'', peer_info'', k'') \<and>
            quota peer_info'' = bus1_user_quota_discharge (quota peer_x) u
               (n_bytes (data m)) (n_handles (data m)) (n_fds (data m)) \<and>
            quota peer_info'' = quota peer_info \<and>
            user m'' = None \<and> slice m'' = None \<and>
            (k_x = k' \<longrightarrow> k'' = k))"
  using assms
  by (auto simp add: bus1_message_allocate_locked_def bus1_message_deallocate_locked_def
        bus1_user_ref_def bus1_user_unref_def bus1_pool_release_kernel_def discharge_charge Let_def
      split: if_splits sum.splits prod.splits)

theorem allocate_deallocate_restores_ledger_witness:
  "bus1_user_quota_charge (quota ex_peer) 1000
      (n_bytes (data ex_message)) (n_handles (data ex_message)) (n_fds (data ex_message)) =
     Inr (quota ex_bound_peer) \<and>
   (\<exists>m'' peer_info'' k''.
      bus1_message_deallocate_locked ex_bound_message ex_bound_peer ex_bound_kernel =
        Some (m'', peer_info'', k'') \<and>
      quota peer_info'' = quota ex_peer \<and>
      user m'' = None \<and> slice m'' = None \<and> k'' = ex_kernel)"
  using allocate_deallocate_restores_ledger [OF ex_allocate refl, of ex_bound_kernel]
  by blast

subsection \<open>Unbind twice\<close>

text \<open>
  Claim C7: Unbind is idempotent. Calling it again on the message, peer and kernel state
  that a first call left gives that same state (and where the first call has no result,
  neither has the pair); on a message whose user and slice are both unset it changes
  nothing: no discharge, no release to the pool, no reference dropped.
\<close>

theorem deallocate_idempotent:
  "(case bus1_message_deallocate_locked m peer_info k of
      None \<Rightarrow> None
    | Some (m', peer_info', k') \<Rightarrow> bus1_message_deallocate_locked m' peer_info' k') =
   bus1_message_deallocate_locked m peer_info k \<and>
   (user m = None \<and> slice m = None \<longrightarrow>
      bus1_message_deallocate_locked m peer_info k = Some (m, peer_info, k))"
  by (auto simp add: bus1_message_deallocate_locked_def bus1_user_unref_def
        bus1_pool_release_kernel_def Let_def split: option.splits)

theorem deallocate_idempotent_witness:
  "bus1_message_deallocate_locked ex_bound_message ex_bound_peer ex_bound_kernel \<noteq> None \<and>
   (case bus1_message_deallocate_locked ex_bound_message ex_bound_peer ex_bound_kernel of
      None \<Rightarrow> None
    | Some (m', peer_info', k') \<Rightarrow> bus1_message_deallocate_locked m' peer_info' k') =
   bus1_message_deallocate_locked ex_bound_message ex_bound_peer ex_bound_kernel \<and>
   bus1_message_deallocate_locked ex_message ex_peer ex_kernel =
     Some (ex_message, ex_peer, ex_kernel)"
proof -
  have n: "user ex_message = None \<and> slice ex_message = None"
    by (simp add: ex_message_def)
  have d: "bus1_message_deallocate_locked ex_bound_message ex_bound_peer ex_bound_kernel \<noteq> None"
    by (simp add: bus1_message_deallocate_locked_def ex_bound_message_eq Let_def
          bus1_pool_release_kernel_def bus1_user_unref_def split: prod.splits)
  from deallocate_idempotent [of ex_bound_message ex_bound_peer ex_bound_kernel]
       deallocate_idempotent [of ex_message ex_peer ex_kernel] n d
  show ?thesis by blast
qed

subsection \<open>Destroy\<close>

text \<open>
  Claim C10: \<^verbatim>\<open>bus1_message_free\<close> returns \<^verbatim>\<open>NULL\<close> for every input, and for the
  \<^verbatim>\<open>NULL\<close> message it changes nothing: no warning, no file reference dropped.
\<close>

theorem free_returns_null:
  "fst (bus1_message_free mo k) = None \<and> bus1_message_free None k = (None, k)"
  by (simp add: bus1_message_free_def Let_def split: option.splits)

theorem free_returns_null_witness:
  "fst (bus1_message_free (Some ex_message) ex_kernel) = None \<and>
   bus1_message_free None ex_kernel = (None, ex_kernel)"
  by (rule free_returns_null)

subsection \<open>InstallHandles: the loop\<close>

lemma handle_block_offset_Suc:
  "j < length (hi_blocks (handles m)) \<Longrightarrow>
   handle_block_offset m (Suc j) =
     handle_block_offset m j + of_nat (length (hi_blocks (handles m) ! j)) * 8"
  by (simp add: handle_block_offset_def take_Suc_conv_app_nth)

lemma install_handles_loop_spec:
  "install_handles_loop m p pos off = Some (r, p') \<Longrightarrow>
   off = handle_block_offset m pos \<Longrightarrow>
   \<exists>j. pos \<le> j \<and> (pos \<le> length (hi_blocks (handles m)) \<longrightarrow> j \<le> length (hi_blocks (handles m))) \<and>
       p' = p\<lparr>pool_writes := pool_writes p @
                 (case slice m of None \<Rightarrow> [] | Some sl \<Rightarrow> map (handle_block_write m sl) [pos..<j])\<rparr> \<and>
       (r = OK \<longrightarrow> j = length (hi_blocks (handles m)) \<or> pos > length (hi_blocks (handles m)) \<or>
                   (of_nat (length (hi_blocks (handles m) ! j)) :: size_t) = 0) \<and>
       (\<forall>e. r = ERR e \<longrightarrow>
            j < length (hi_blocks (handles m)) \<and>
            (\<exists>sl. slice m = Some sl \<and>
                  bus1_pool_write_kvec p' sl (handle_block_offset m j)
                    (handle_block_vec m j)
                    (iov_len (handle_block_vec m j)) = Inl e))"
proof (induction m p pos off arbitrary: r p' rule: install_handles_loop.induct)
  case (1 m p pos off)
  let ?B = "hi_blocks (handles m)"
  show ?case
  proof (cases "pos < length ?B \<and> (of_nat (length (?B ! pos)) :: size_t) \<noteq> 0")
    case False
    with "1.prems" have "r = OK" "p' = p"
      by (auto simp: bus1_handle_inflight_walk_def split: if_splits)
    with False show ?thesis
      by (intro exI [of _ pos]) (auto split: option.splits)
  next
    case True
    then have lt: "pos < length ?B" and nz: "(of_nat (length (?B ! pos)) :: size_t) \<noteq> 0" by auto
    from "1.prems"(1) lt nz obtain sl where sl: "slice m = Some sl"
      by (auto simp: bus1_handle_inflight_walk_def Let_def word_gt_0 split: option.splits)
    let ?n = "of_nat (length (?B ! pos)) :: size_t"
    let ?vec = "\<lparr>iov_base = Ids (?B ! pos), iov_len = ?n * 8\<rparr>"
    show ?thesis
    proof (cases "bus1_pool_write_kvec p sl off ?vec (?n * 8)")
      case (Inl e)
      with "1.prems" lt nz sl have r: "r = ERR e" "p' = p"
        by (auto simp: bus1_handle_inflight_walk_def Let_def word_gt_0)
      with Inl "1.prems"(2) lt sl show ?thesis
        by (intro exI [of _ pos]) (auto simp: handle_block_write_def handle_block_vec_def)
    next
      case (Inr p1)
      with "1.prems" lt nz sl have rec: "install_handles_loop m p1 (Suc pos) (off + ?n * 8) = Some (r, p')"
        by (auto simp: bus1_handle_inflight_walk_def Let_def word_gt_0)
      have off': "off + ?n * 8 = handle_block_offset m (Suc pos)"
        using "1.prems"(2) lt by (simp add: handle_block_offset_Suc)
      have p1: "p1 = p\<lparr>pool_writes := pool_writes p @ [handle_block_write m sl pos]\<rparr>"
        using Inr "1.prems"(2)
        by (auto simp: bus1_pool_write_kvec_def handle_block_write_def handle_block_vec_def
              split: if_splits)
      have walk: "(?n, Suc pos, ?B ! pos) = bus1_handle_inflight_walk (handles m) pos"
        using lt by (simp add: bus1_handle_inflight_walk_def)
      have gt: "0 < ?n" using nz by (simp add: word_gt_0)
      have w: "bus1_pool_write_kvec p sl off ?vec (iov_len ?vec) = Inr p1"
        using Inr by simp
      from "1.IH" [OF walk refl refl gt refl sl w rec off']
      obtain j where j: "Suc pos \<le> j" "j \<le> length ?B"
        and p': "p' = p1\<lparr>pool_writes := pool_writes p1 @ map (handle_block_write m sl) [Suc pos..<j]\<rparr>"
        and ok: "r = OK \<longrightarrow> j = length ?B \<or> (of_nat (length (?B ! j)) :: size_t) = 0"
        and err: "\<forall>e. r = ERR e \<longrightarrow> j < length ?B \<and>
            (\<exists>sl. slice m = Some sl \<and>
                  bus1_pool_write_kvec p' sl (handle_block_offset m j)
                    (handle_block_vec m j)
                    (iov_len (handle_block_vec m j)) = Inl e)"
        using lt sl by auto
      have "[pos..<j] = pos # [Suc pos..<j]" using j by (simp add: upt_conv_Cons)
      with p' p1 have "p' = p\<lparr>pool_writes := pool_writes p @ map (handle_block_write m sl) [pos..<j]\<rparr>"
        by simp
      with j ok err sl show ?thesis
        by (intro exI [of _ j]) auto
    qed
  qed
qed

text \<open>With a slice, InstallHandles returns.\<close>

lemma install_handles_loop_defined:
  "slice m \<noteq> None \<Longrightarrow> install_handles_loop m p pos off \<noteq> None"
proof (induction m p pos off rule: install_handles_loop.induct)
  case (1 m p pos off)
  from "1.prems" obtain sl where sl: "slice m = Some sl" by auto
  obtain n pos' ids where w: "bus1_handle_inflight_walk (handles m) pos = (n, pos', ids)"
    by (metis surj_pair)
  show ?case
  proof (cases "0 < n")
    case False
    with w show ?thesis by simp
  next
    case True
    let ?vec = "\<lparr>iov_base = Ids ids, iov_len = n * 8\<rparr>"
    show ?thesis
    proof (cases "bus1_pool_write_kvec p sl off ?vec (iov_len ?vec)")
      case (Inl e)
      with w True sl show ?thesis by simp
    next
      case (Inr p1)
      from "1.IH" [OF w [symmetric] refl refl True refl sl Inr "1.prems"]
      have "install_handles_loop m p1 pos' (off + n * 8) \<noteq> None" .
      with w True sl Inr show ?thesis by simp
    qed
  qed
qed

lemma install_handles_returns:
  "slice m \<noteq> None \<Longrightarrow> bus1_message_install_handles m peer_info \<noteq> None"
  using install_handles_loop_defined [of m "pool peer_info" 0 "ALIGN (n_bytes (data m)) 8"]
  by (auto simp: bus1_message_install_handles_def simp del: install_handles_loop.simps)

subsection \<open>InstallFds: the loops over the descriptor table\<close>

lemma get_unused_fd_flags_Inr:
  "get_unused_fd_flags t = Inr (fd, t') \<Longrightarrow> fd < length t \<and> t ! fd = Unused \<and> t' = t[fd := Reserved]"
  by (auto simp: get_unused_fd_flags_def find_Some_iff split: option.splits)

lemma get_unused_fd_flags_Inl: "get_unused_fd_flags t = Inl e \<Longrightarrow> e = EMFILE"
  by (auto simp: get_unused_fd_flags_def split: option.splits)

lemma put_fds_down_cong:
  "(\<forall>j<i. fds ! j = fds' ! j) \<Longrightarrow> put_fds_down i fds t = put_fds_down i fds' t"
  by (induction i arbitrary: t) auto

lemma reserve_fds_Inl:
  "reserve_fds n i fds t = Some (Inl e, t') \<Longrightarrow> e = EMFILE \<and> t' = put_fds_down i fds t"
proof (induction n i fds t rule: reserve_fds.induct)
  case (1 n i fds t)
  show ?case
  proof (cases "i < n")
    case False
    with "1.prems" show ?thesis by simp
  next
    case True
    show ?thesis
    proof (cases "get_unused_fd_flags t")
      case (Inl r)
      with True "1.prems" get_unused_fd_flags_Inl [OF Inl] show ?thesis by simp
    next
      case (Inr x)
      obtain fd t1 where x: "x = (fd, t1)" by (cases x)
      from Inr x get_unused_fd_flags_Inr [of t fd t1]
      have fd: "fd < length t" "t ! fd = Unused" "t1 = t[fd := Reserved]" by auto
      from "1.prems" True Inr x have len: "i < length fds"
        and rec: "reserve_fds n (Suc i) (fds[i := fd]) t1 = Some (Inl e, t')"
        by (auto split: if_splits)
      from "1.IH" [OF True Inr x [symmetric] len rec]
      have e: "e = EMFILE" and t': "t' = put_fds_down (Suc i) (fds[i := fd]) t1" by auto
      have "put_unused_fd fd t1 = t"
        using fd by (simp add: put_unused_fd_def list_update_same_conv)
      with t' len have "t' = put_fds_down i (fds[i := fd]) t" by simp
      also have "\<dots> = put_fds_down i fds t"
        by (rule put_fds_down_cong) simp
      finally show ?thesis using e by simp
    qed
  qed
qed

lemma reserve_fds_Inr:
  "reserve_fds n i fds t = Some (Inr fds', t') \<Longrightarrow>
     length fds' = length fds \<and> length t' = length t \<and> (i < n \<longrightarrow> n \<le> length fds) \<and>
     (\<forall>j<i. fds' ! j = fds ! j) \<and>
     (\<forall>j. i \<le> j \<and> j < n \<longrightarrow> fds' ! j < length t \<and> t ! (fds' ! j) = Unused) \<and>
     (\<forall>j j'. i \<le> j \<and> j < j' \<and> j' < n \<longrightarrow> fds' ! j \<noteq> fds' ! j') \<and>
     (\<forall>x<length t. t' ! x = (if \<exists>j. i \<le> j \<and> j < n \<and> fds' ! j = x then Reserved else t ! x))"
proof (induction n i fds t rule: reserve_fds.induct)
  case (1 n i fds t)
  show ?case
  proof (cases "i < n")
    case False
    with "1.prems" show ?thesis by auto
  next
    case True
    show ?thesis
    proof (cases "get_unused_fd_flags t")
      case (Inl r)
      with True "1.prems" show ?thesis by simp
    next
      case (Inr x)
      obtain fd t1 where x: "x = (fd, t1)" by (cases x)
      from Inr x get_unused_fd_flags_Inr [of t fd t1]
      have fd: "fd < length t" "t ! fd = Unused" "t1 = t[fd := Reserved]" by auto
      from "1.prems" True Inr x have len: "i < length fds"
        and rec: "reserve_fds n (Suc i) (fds[i := fd]) t1 = Some (Inr fds', t')"
        by (auto split: if_splits)
      from "1.IH" [OF True Inr x [symmetric] len rec]
      have l1: "length fds' = length fds" and l2: "length t' = length t"
        and n: "Suc i < n \<longrightarrow> n \<le> length fds"
        and old: "\<forall>j<Suc i. fds' ! j = (fds[i := fd]) ! j"
        and unused: "\<forall>j. Suc i \<le> j \<and> j < n \<longrightarrow> fds' ! j < length t1 \<and> t1 ! (fds' ! j) = Unused"
        and dist: "\<forall>j j'. Suc i \<le> j \<and> j < j' \<and> j' < n \<longrightarrow> fds' ! j \<noteq> fds' ! j'"
        and pt: "\<forall>x<length t1. t' ! x = (if \<exists>j. Suc i \<le> j \<and> j < n \<and> fds' ! j = x then Reserved else t1 ! x)"
        using fd by auto
      have at_i: "fds' ! i = fd" using old len by simp
      have later: "fds' ! j < length t \<and> t ! (fds' ! j) = Unused \<and> fds' ! j \<noteq> fd"
        if "Suc i \<le> j" "j < n" for j
        using unused that fd by (auto simp: nth_list_update split: if_splits)
      have c1: "n \<le> length fds"
        using n len True by (cases "Suc i < n") auto
      have c2: "\<forall>j<i. fds' ! j = fds ! j" using old by simp
      have c3: "\<forall>j. i \<le> j \<and> j < n \<longrightarrow> fds' ! j < length t \<and> t ! (fds' ! j) = Unused"
      proof (intro allI impI)
        fix j assume "i \<le> j \<and> j < n"
        then show "fds' ! j < length t \<and> t ! (fds' ! j) = Unused"
          using later [of j] at_i fd by (cases "j = i") auto
      qed
      have c4: "\<forall>j j'. i \<le> j \<and> j < j' \<and> j' < n \<longrightarrow> fds' ! j \<noteq> fds' ! j'"
      proof (intro allI impI)
        fix j j' assume a: "i \<le> j \<and> j < j' \<and> j' < n"
        show "fds' ! j \<noteq> fds' ! j'"
        proof (cases "j = i")
          case True
          with a later [of j'] at_i show ?thesis by auto
        next
          case False
          with a dist show ?thesis by auto
        qed
      qed
      have c5: "\<forall>x<length t. t' ! x = (if \<exists>j. i \<le> j \<and> j < n \<and> fds' ! j = x then Reserved else t ! x)"
      proof (intro allI impI)
        fix x assume xl: "x < length t"
        have ex: "(\<exists>j. i \<le> j \<and> j < n \<and> fds' ! j = x) = (x = fd \<or> (\<exists>j. Suc i \<le> j \<and> j < n \<and> fds' ! j = x))"
          using at_i True by (metis Suc_leI le_neq_implies_less order_refl Suc_leD)
        from pt xl fd have "t' ! x = (if \<exists>j. Suc i \<le> j \<and> j < n \<and> fds' ! j = x then Reserved else t1 ! x)"
          by simp
        with ex fd xl show "t' ! x = (if \<exists>j. i \<le> j \<and> j < n \<and> fds' ! j = x then Reserved else t ! x)"
          by (auto simp: nth_list_update)
      qed
      from l1 l2 c1 c2 c3 c4 c5 fd show ?thesis by simp
    qed
  qed
qed

lemma put_fds_up_nth:
  "length (put_fds_up n i fds t) = length t \<and>
   (\<forall>x<length t. put_fds_up n i fds t ! x =
        (if \<exists>j. i \<le> j \<and> j < n \<and> fds ! j = x then Unused else t ! x))"
proof (induction n i fds t rule: put_fds_up.induct)
  case (1 n i fds t)
  show ?case
  proof (cases "i < n")
    case False
    then show ?thesis by auto
  next
    case True
    let ?t1 = "put_unused_fd (fds ! i) t"
    have l: "length ?t1 = length t" by (simp add: put_unused_fd_def)
    from "1.IH" [OF True] l
    have ih: "length (put_fds_up n (Suc i) fds ?t1) = length t"
      "\<forall>x<length t. put_fds_up n (Suc i) fds ?t1 ! x =
          (if \<exists>j. Suc i \<le> j \<and> j < n \<and> fds ! j = x then Unused else ?t1 ! x)"
      by auto
    have unf: "put_fds_up n i fds t = put_fds_up n (Suc i) fds ?t1"
      using True by simp
    have "put_fds_up n i fds t ! x =
            (if \<exists>j. i \<le> j \<and> j < n \<and> fds ! j = x then Unused else t ! x)"
      if xl: "x < length t" for x
    proof -
      have ex: "(\<exists>j. i \<le> j \<and> j < n \<and> fds ! j = x) = (x = fds ! i \<or> (\<exists>j. Suc i \<le> j \<and> j < n \<and> fds ! j = x))"
        using True by (metis Suc_leI le_neq_implies_less order_refl Suc_leD)
      from ih(2) xl unf ex show ?thesis
        by (auto simp: put_unused_fd_def nth_list_update)
    qed
    with ih(1) unf show ?thesis by simp
  qed
qed

lemma install_files_nth:
  "install_files n i fds fs t refs = Some (t', refs') \<Longrightarrow>
   length t' = length t \<and>
   (\<forall>x<length t. (\<forall>j. i \<le> j \<and> j < n \<longrightarrow> fds ! j \<noteq> x) \<longrightarrow> t' ! x = t ! x) \<and>
   (\<forall>j. i \<le> j \<and> j < n \<and> fds ! j < length t \<and> (\<forall>j'. j < j' \<and> j' < n \<longrightarrow> fds ! j' \<noteq> fds ! j)
        \<longrightarrow> (\<exists>f. fs j = Some f \<and> t' ! (fds ! j) = Installed f))"
proof (induction n i fds fs t refs rule: install_files.induct)
  case (1 n i fds fs t refs)
  show ?case
  proof (cases "i < n")
    case False
    with "1.prems" show ?thesis by auto
  next
    case True
    with "1.prems" obtain f where f: "fs i = Some f"
      and rec: "install_files n (Suc i) fds fs (fd_install (fds ! i) f t) (get_file f refs) = Some (t', refs')"
      by (auto split: option.splits)
    let ?t1 = "fd_install (fds ! i) f t"
    have l: "length ?t1 = length t" by (simp add: fd_install_def)
    from "1.IH" [OF True f rec] l
    have l': "length t' = length t"
      and same: "\<forall>x<length t. (\<forall>j. Suc i \<le> j \<and> j < n \<longrightarrow> fds ! j \<noteq> x) \<longrightarrow> t' ! x = ?t1 ! x"
      and inst: "\<forall>j. Suc i \<le> j \<and> j < n \<and> fds ! j < length t \<and> (\<forall>j'. j < j' \<and> j' < n \<longrightarrow> fds ! j' \<noteq> fds ! j)
        \<longrightarrow> (\<exists>f. fs j = Some f \<and> t' ! (fds ! j) = Installed f)"
      by auto
    have c2: "\<forall>x<length t. (\<forall>j. i \<le> j \<and> j < n \<longrightarrow> fds ! j \<noteq> x) \<longrightarrow> t' ! x = t ! x"
    proof (intro allI impI)
      fix x assume xl: "x < length t" and ne: "\<forall>j. i \<le> j \<and> j < n \<longrightarrow> fds ! j \<noteq> x"
      then have "\<forall>j. Suc i \<le> j \<and> j < n \<longrightarrow> fds ! j \<noteq> x" by auto
      with same xl have "t' ! x = ?t1 ! x" by simp
      moreover from ne True have "fds ! i \<noteq> x" by auto
      ultimately show "t' ! x = t ! x" by (simp add: fd_install_def)
    qed
    have c3: "\<forall>j. i \<le> j \<and> j < n \<and> fds ! j < length t \<and> (\<forall>j'. j < j' \<and> j' < n \<longrightarrow> fds ! j' \<noteq> fds ! j)
        \<longrightarrow> (\<exists>f. fs j = Some f \<and> t' ! (fds ! j) = Installed f)"
    proof (intro allI impI)
      fix j assume a: "i \<le> j \<and> j < n \<and> fds ! j < length t \<and> (\<forall>j'. j < j' \<and> j' < n \<longrightarrow> fds ! j' \<noteq> fds ! j)"
      show "\<exists>f. fs j = Some f \<and> t' ! (fds ! j) = Installed f"
      proof (cases "j = i")
        case False
        with a inst show ?thesis by auto
      next
        case True
        with a have "\<forall>j'. Suc i \<le> j' \<and> j' < n \<longrightarrow> fds ! j' \<noteq> fds ! i" by auto
        with same a True have "t' ! (fds ! i) = ?t1 ! (fds ! i)" by simp
        with a True f show ?thesis by (simp add: fd_install_def)
      qed
    qed
    from l' c2 c3 show ?thesis by simp
  qed
qed

text \<open>
  InstallFds returns when the message has a slice, every one of its \<^verbatim>\<open>n_fds\<close> file
  slots is filled, and \<^verbatim>\<open>n_fds * sizeof(int)\<close> does not wrap.
\<close>

lemma reserve_fds_defined:
  "n \<le> length fds \<Longrightarrow> reserve_fds n i fds t \<noteq> None"
proof (induction n i fds t rule: reserve_fds.induct)
  case (1 n i fds t)
  show ?case
  proof (cases "i < n")
    case False
    then show ?thesis by simp
  next
    case True
    show ?thesis
    proof (cases "get_unused_fd_flags t")
      case (Inl r)
      with True show ?thesis by simp
    next
      case (Inr x)
      obtain fd t1 where x: "x = (fd, t1)" by (cases x)
      from True "1.prems" have len: "i < length fds" by simp
      from "1.IH" [OF True Inr x [symmetric] len] "1.prems"
      have "reserve_fds n (Suc i) (fds[i := fd]) t1 \<noteq> None" by simp
      with True Inr x len show ?thesis by simp
    qed
  qed
qed

lemma install_files_defined:
  "\<forall>j. i \<le> j \<and> j < n \<longrightarrow> fs j \<noteq> None \<Longrightarrow> install_files n i fds fs t refs \<noteq> None"
proof (induction n i fds fs t refs rule: install_files.induct)
  case (1 n i fds fs t refs)
  show ?case
  proof (cases "i < n")
    case False
    then show ?thesis by simp
  next
    case True
    with "1.prems" obtain f where f: "fs i = Some f" by auto
    from "1.prems" have "\<forall>j. Suc i \<le> j \<and> j < n \<longrightarrow> fs j \<noteq> None" by auto
    from "1.IH" [OF True f this] True f show ?thesis by simp
  qed
qed

lemma unat_times_4:
  assumes "unat (n :: size_t) < 2 ^ 62"
  shows "unat (n * 4) div 4 = unat n"
proof -
  have "unat n * 4 < 2 ^ 64" using assms by simp
  then have "unat (n * 4) = unat n * 4"
    by (simp add: unat_word_ariths)
  then show ?thesis by simp
qed

lemma install_fds_returns:
  assumes "slice m \<noteq> None" and "\<forall>j<unat (n_fds (data m)). files m j \<noteq> None"
    and "unat (n_fds (data m)) < 2 ^ 62"
  shows "bus1_message_install_fds m peer_info k \<noteq> None"
proof (cases "kmalloc k (n_fds (data m) * 4)")
  case False
  then show ?thesis by (simp add: bus1_message_install_fds_def)
next
  case True
  let ?n = "unat (n_fds (data m))"
  let ?a = "replicate (unat (n_fds (data m) * 4) div 4) (0::nat)"
  have "?n \<le> length ?a" using unat_times_4 [OF assms(3)] by simp
  from reserve_fds_defined [OF this] obtain res t1
    where res: "reserve_fds ?n 0 ?a (fdt k) = Some (res, t1)"
    by (metis not_None_eq surj_pair)
  from assms(1) obtain sl where sl: "slice m = Some sl" by auto
  show ?thesis
  proof (cases res)
    case (Inl e)
    with True res show ?thesis
      by (simp add: bus1_message_install_fds_def Let_def
            del: reserve_fds.simps put_fds_up.simps install_files.simps)
  next
    case (Inr fds)
    from assms(2) have "\<forall>j. 0 \<le> j \<and> j < ?n \<longrightarrow> files m j \<noteq> None" by simp
    from install_files_defined [OF this]
    have "install_files ?n 0 fds (files m) t1 (f_count k) \<noteq> None" .
    with True res Inr sl show ?thesis
      by (auto simp: bus1_message_install_fds_def Let_def
            simp del: reserve_fds.simps put_fds_up.simps install_files.simps
            split: sum.splits)
  qed
qed

text \<open>
  A failed reservation loop returns the error of the call of \<^verbatim>\<open>get_unused_fd_flags\<close>
  that failed, after \<open>j\<close> calls that succeeded.
\<close>

lemma reserve_fds_Inl_cause:
  "reserve_fds n i fds t = Some (Inl e, t') \<Longrightarrow>
   \<exists>j fds' t''. i \<le> j \<and> j < n \<and> reserve_fds j i fds t = Some (Inr fds', t'') \<and>
                 get_unused_fd_flags t'' = Inl e"
proof (induction n i fds t rule: reserve_fds.induct)
  case (1 n i fds t)
  show ?case
  proof (cases "i < n")
    case False
    with "1.prems" show ?thesis by simp
  next
    case True
    show ?thesis
    proof (cases "get_unused_fd_flags t")
      case (Inl r)
      with True "1.prems" have "e = r" by simp
      with Inl True show ?thesis
        by (intro exI [of _ i] exI [of _ fds] exI [of _ t]) simp
    next
      case (Inr x)
      obtain fd t1 where x: "x = (fd, t1)" by (cases x)
      from "1.prems" True Inr x have len: "i < length fds"
        and rec: "reserve_fds n (Suc i) (fds[i := fd]) t1 = Some (Inl e, t')"
        by (auto split: if_splits)
      from "1.IH" [OF True Inr x [symmetric] len rec]
      obtain j fds' t'' where j: "Suc i \<le> j" "j < n"
        and r: "reserve_fds j (Suc i) (fds[i := fd]) t1 = Some (Inr fds', t'')"
        and g: "get_unused_fd_flags t'' = Inl e"
        by blast
      from j have "i < j" by simp
      with Inr x len r have "reserve_fds j i fds t = Some (Inr fds', t'')"
        by (subst reserve_fds.simps) (simp del: reserve_fds.simps)
      with j g show ?thesis
        by (intro exI [of _ j] exI [of _ fds'] exI [of _ t'']) simp
    qed
  qed
qed

subsection \<open>The pairing of slice and user\<close>

lemma new_unbound:
  "bus1_message_new sz inl k nb nf nh silent = Inr m \<Longrightarrow> user m = None \<and> slice m = None"
  by (auto simp: bus1_message_new_def Let_def split: if_splits)

lemma new_returns:
  "kmalloc k (ALIGN (sz + inl nh) 8 + nf * 8) \<Longrightarrow>
   \<exists>m. bus1_message_new sz inl k nb nf nh silent = Inr m"
  by (simp add: bus1_message_new_def Let_def)

lemma allocate_binding:
  "bus1_message_allocate_locked m p u k = (r, m', p', k') \<Longrightarrow>
     (if r = OK then user m' = Some u \<and> slice m' \<noteq> None else m' = m)"
  by (auto simp: bus1_message_allocate_locked_def Let_def bus1_user_ref_def
      split: if_splits sum.splits prod.splits)

lemma deallocate_clears:
  "bus1_message_deallocate_locked m p k = Some (m', p', k') \<Longrightarrow> user m' = None \<and> slice m' = None"
  by (auto simp: bus1_message_deallocate_locked_def Let_def bus1_user_unref_def
        bus1_pool_release_kernel_def split: option.splits prod.splits)

lemma deallocate_defined:
  "(slice m \<noteq> None) = (user m \<noteq> None) \<Longrightarrow> bus1_message_deallocate_locked m p k \<noteq> None"
  by (auto simp: bus1_message_deallocate_locked_def Let_def bus1_user_unref_def
        bus1_pool_release_kernel_def split: option.splits prod.splits)

lemma run_op_paired:
  assumes "(slice m \<noteq> None) = (user m \<noteq> None)"
  shows "\<exists>m' p' k'. run_op x (m, p, k) = Some (m', p', k') \<and> (slice m' \<noteq> None) = (user m' \<noteq> None)"
proof (cases x)
  case (Bind u)
  obtain r m' p' k' where a: "bus1_message_allocate_locked m p u k = (r, m', p', k')"
    by (metis prod_cases4)
  from allocate_binding [OF a] assms have "(slice m' \<noteq> None) = (user m' \<noteq> None)"
    by (auto split: if_splits)
  with a Bind show ?thesis by simp
next
  case Unbind
  from deallocate_defined [OF assms] obtain m' p' k'
    where d: "bus1_message_deallocate_locked m p k = Some (m', p', k')"
    by (metis not_None_eq prod_cases3)
  from deallocate_clears [OF d] d Unbind show ?thesis by simp
qed

lemma run_ops_paired:
  "(slice m \<noteq> None) = (user m \<noteq> None) \<Longrightarrow>
   \<exists>m' p' k'. run_ops ops (m, p, k) = Some (m', p', k') \<and> (slice m' \<noteq> None) = (user m' \<noteq> None)"
proof (induction ops arbitrary: m p k)
  case Nil
  then show ?case by simp
next
  case (Cons x xs)
  from run_op_paired [OF Cons.prems] obtain m1 p1 k1
    where s: "run_op x (m, p, k) = Some (m1, p1, k1)" and i: "(slice m1 \<noteq> None) = (user m1 \<noteq> None)"
    by blast
  from Cons.IH [OF i] s show ?case by simp
qed

lemma ex_new:
  "bus1_message_new 64 (\<lambda>n. n * 8) ex_kernel 16 2 1 False = Inr ex_new_message"
  by (simp add: bus1_message_new_def ex_new_message_def ex_message_def ALIGN_def kmalloc_def
        ex_kernel_def Let_def)

lemma ex_deallocate:
  "bus1_message_deallocate_locked ex_bound_message ex_bound_peer ex_bound_kernel \<noteq> None"
  by (simp add: bus1_message_deallocate_locked_def ex_bound_message_eq Let_def
        bus1_pool_release_kernel_def bus1_user_unref_def split: prod.splits)

text \<open>
  Claim C4: the slice of a message is set exactly when its user is.
  \<^verbatim>\<open>bus1_message_new\<close> returns a message whenever its allocation succeeds, and that
  message has neither; after any sequence of Bind and Unbind calls on it (each of which
  returns) the two fields are set together or not at all. A successful Bind sets the
  user to the one charged and the slice to a slice; a failed Bind leaves the message as
  it was; Unbind, when it returns, leaves both unset.
\<close>

theorem slice_user_paired:
  "(kmalloc k0 (ALIGN (sz + inl nh) 8 + nf * 8) \<longrightarrow>
      (\<exists>m. bus1_message_new sz inl k0 nb nf nh silent = Inr m)) \<and>
   (bus1_message_new sz inl k0 nb nf nh silent = Inr m0 \<longrightarrow>
      user m0 = None \<and> slice m0 = None \<and>
      (\<exists>m p' k'. run_ops ops (m0, p, k) = Some (m, p', k') \<and>
                  (slice m \<noteq> None) = (user m \<noteq> None))) \<and>
   (bus1_message_allocate_locked m1 p1 u k1 = (r, m1', p1', k1') \<longrightarrow>
      (if r = OK then user m1' = Some u \<and> slice m1' \<noteq> None else m1' = m1)) \<and>
   (bus1_message_deallocate_locked m2 p2 k2 = Some (m2', p2', k2') \<longrightarrow>
      user m2' = None \<and> slice m2' = None)"
  using new_returns [of k0 sz inl nh nf nb silent]
    new_unbound [of sz inl k0 nb nf nh silent m0] run_ops_paired [of m0 ops p k]
    allocate_binding [of m1 p1 u k1 r m1' p1' k1'] deallocate_clears [of m2 p2 k2 m2' p2' k2']
  by blast

theorem slice_user_paired_witness:
  "bus1_message_new 64 (\<lambda>n. n * 8) ex_kernel 16 2 1 False = Inr ex_new_message \<and>
   (\<exists>m0. bus1_message_new 64 (\<lambda>n. n * 8) ex_kernel 16 2 1 False = Inr m0 \<and>
      user m0 = None \<and> slice m0 = None \<and>
      (\<exists>m p' k'. run_ops [Bind 1000, Bind 7, Unbind, Unbind, Bind 8]
                    (m0, ex_peer, ex_kernel) = Some (m, p', k') \<and>
                  (slice m \<noteq> None) = (user m \<noteq> None))) \<and>
   user ex_bound_message = Some 1000 \<and> slice ex_bound_message \<noteq> None \<and>
   user (fst (the (bus1_message_deallocate_locked ex_bound_message ex_bound_peer ex_bound_kernel)))
     = None \<and>
   slice (fst (the (bus1_message_deallocate_locked ex_bound_message ex_bound_peer ex_bound_kernel)))
     = None"
proof -
  let ?d = "the (bus1_message_deallocate_locked ex_bound_message ex_bound_peer ex_bound_kernel)"
  have d: "bus1_message_deallocate_locked ex_bound_message ex_bound_peer ex_bound_kernel =
             Some (fst ?d, fst (snd ?d), snd (snd ?d))"
    using ex_deallocate by auto
  have km: "kmalloc ex_kernel (ALIGN (64 + 1 * 8) 8 + 2 * 8)"
    by (simp add: kmalloc_def ex_kernel_def ALIGN_def)
  from slice_user_paired [of ex_kernel 64 "\<lambda>n. n * 8" 1 2 16 False ex_new_message
         "[Bind 1000, Bind 7, Unbind, Unbind, Bind 8]" ex_peer ex_kernel
         ex_message ex_peer 1000 ex_kernel OK ex_bound_message ex_bound_peer ex_bound_kernel
         ex_bound_message ex_bound_peer ex_bound_kernel "fst ?d" "fst (snd ?d)" "snd (snd ?d)"]
       km ex_new ex_allocate d
  show ?thesis by simp
qed

subsection \<open>InstallHandles\<close>

lemma ex_install_handles:
  "bus1_message_install_handles ex_bound_message ex_bound_peer =
     Some (OK, ex_bound_message,
           ex_bound_peer\<lparr>pool := (pool ex_bound_peer)\<lparr>pool_writes :=
              [(\<lparr>ps_offset = 0, ps_size = 32\<rparr>, 16, \<lparr>iov_base = Ids [42], iov_len = 8\<rparr>)]\<rparr>\<rparr>)"
  by (simp add: bus1_message_install_handles_def ex_bound_message_eq ex_bound_pool ex_message_def
        bus1_handle_inflight_walk_def bus1_pool_write_kvec_def ALIGN_def Let_def)

lemma ex_bound_counts:
  "n_fds (data ex_bound_message) = 2" "n_bytes (data ex_bound_message) = 16"
  "n_handles (data ex_bound_message) = 1"
  "slice ex_bound_message = Some \<lparr>ps_offset = 0, ps_size = 32\<rparr>"
  "hi_blocks (handles ex_bound_message) = [ [42] ]"
  by (simp_all add: ex_bound_message_eq ex_message_def)

lemma ex_install_handles_the:
  "bus1_message_install_handles ex_bound_message ex_bound_peer = Some ex_handles_installed"
  "fst ex_handles_installed = OK"
  by (simp_all add: ex_handles_installed_def ex_install_handles)

text \<open>
  Claim C9: when InstallHandles returns, the message is unchanged and the peer differs
  only by the writes added to the pool: one per block of handle ids, for the first \<open>j\<close>
  blocks in order, each into the message's slice at \<^verbatim>\<open>align8(n_bytes)\<close> plus 8 bytes for
  every id of the blocks before it. On success the blocks are exhausted at \<open>j\<close> (no
  block is left, or the tracker reports length 0); on an error the write of block \<open>j\<close>
  is the one that failed with that error, and nothing after it was written. Slice, user
  and ledger are as before.
\<close>

theorem install_handles_writes:
  assumes "bus1_message_install_handles m peer_info = Some (r, m', peer_info')"
  shows "m' = m \<and>
         (\<exists>j\<le>length (hi_blocks (handles m)).
            peer_info' = peer_info\<lparr>pool := (pool peer_info)\<lparr>pool_writes :=
               pool_writes (pool peer_info) @
                 (case slice m of None \<Rightarrow> []
                  | Some sl \<Rightarrow> map (handle_block_write m sl) [0..<j])\<rparr>\<rparr> \<and>
            (r = OK \<longrightarrow> j = length (hi_blocks (handles m)) \<or>
                        (of_nat (length (hi_blocks (handles m) ! j)) :: size_t) = 0) \<and>
            (\<forall>e. r = ERR e \<longrightarrow>
                 j < length (hi_blocks (handles m)) \<and>
                 (\<exists>sl. slice m = Some sl \<and>
                       bus1_pool_write_kvec (pool peer_info') sl (handle_block_offset m j)
                         (handle_block_vec m j) (iov_len (handle_block_vec m j)) = Inl e)))"
proof -
  from assms obtain p' where
    loop: "install_handles_loop m (pool peer_info) 0 (ALIGN (n_bytes (data m)) 8) = Some (r, p')"
    and m': "m' = m" and peer': "peer_info' = peer_info\<lparr>pool := p'\<rparr>"
    by (auto simp: bus1_message_install_handles_def split: option.splits)
  have off: "ALIGN (n_bytes (data m)) 8 = handle_block_offset m 0"
    by (simp add: handle_block_offset_def)
  from install_handles_loop_spec [OF loop off] peer' m' show ?thesis
    by auto
qed

theorem install_handles_writes_witness:
  "bus1_message_install_handles ex_bound_message ex_bound_peer = Some ex_handles_installed \<and>
   fst ex_handles_installed = OK \<and>
   pool_writes (pool (snd (snd ex_handles_installed))) =
     [handle_block_write ex_bound_message \<lparr>ps_offset = 0, ps_size = 32\<rparr> 0] \<and>
   handle_block_offset ex_bound_message 0 = 16"
proof -
  let ?E = ex_handles_installed
  have h: "bus1_message_install_handles ex_bound_message ex_bound_peer =
             Some (OK, fst (snd ?E), snd (snd ?E))"
    using ex_install_handles_the by (metis prod.collapse)
  from install_handles_writes [OF h] obtain j where
    j: "j \<le> length (hi_blocks (handles ex_bound_message))"
    and p: "snd (snd ?E) = ex_bound_peer\<lparr>pool := (pool ex_bound_peer)\<lparr>pool_writes :=
               pool_writes (pool ex_bound_peer) @
                 (case slice ex_bound_message of None \<Rightarrow> []
                  | Some sl \<Rightarrow> map (handle_block_write ex_bound_message sl) [0..<j])\<rparr>\<rparr>"
    and e: "j = length (hi_blocks (handles ex_bound_message)) \<or>
            (of_nat (length (hi_blocks (handles ex_bound_message) ! j)) :: size_t) = 0"
    by auto
  from j e have "j = 1" by (cases "j = 0") (auto simp: ex_bound_counts)
  with p have "pool_writes (pool (snd (snd ?E))) =
     [handle_block_write ex_bound_message \<lparr>ps_offset = 0, ps_size = 32\<rparr> 0]"
    by (simp add: ex_bound_counts ex_bound_pool)
  moreover have "handle_block_offset ex_bound_message 0 = 16"
    by (simp add: handle_block_offset_def ex_bound_counts ALIGN_def)
  ultimately show ?thesis using ex_install_handles_the by simp
qed

subsection \<open>InstallFds\<close>

lemma new_fds_same: "new_fds t t = []"
  by (simp add: new_fds_def)

lemma reserve_then_release:
  assumes "reserve_fds n 0 fds t = Some (Inr fds', t1)"
  shows "put_fds_up n 0 fds' t1 = t"
proof (rule nth_equalityI)
  from reserve_fds_Inr [OF assms] put_fds_up_nth [of n 0 fds' t1]
  show "length (put_fds_up n 0 fds' t1) = length t" by simp
next
  fix x assume "x < length (put_fds_up n 0 fds' t1)"
  with reserve_fds_Inr [OF assms] put_fds_up_nth [of n 0 fds' t1]
  show "put_fds_up n 0 fds' t1 ! x = t ! x"
    by auto
qed

lemma reserve_then_install:
  assumes r: "reserve_fds n 0 fds t = Some (Inr fds', t1)"
    and i: "install_files n 0 fds' fs t1 refs = Some (t2, refs')"
  shows "length t2 = length t"
    and "\<forall>j<n. fds' ! j < length t \<and> t ! (fds' ! j) = Unused \<and>
               (\<exists>f. fs j = Some f \<and> t2 ! (fds' ! j) = Installed f)"
    and "inj_on (\<lambda>j. fds' ! j) {0..<n}"
    and "\<forall>x<length t. (\<forall>j<n. fds' ! j \<noteq> x) \<longrightarrow> t2 ! x = t ! x"
proof -
  note R = reserve_fds_Inr [OF r]
  note I = install_files_nth [OF i]
  from R have l1: "length t1 = length t" by simp
  from R have un: "\<forall>j<n. fds' ! j < length t \<and> t ! (fds' ! j) = Unused" by simp
  from R have di: "\<forall>j j'. j < j' \<and> j' < n \<longrightarrow> fds' ! j \<noteq> fds' ! j'" by simp
  from R have pt: "\<forall>x<length t. t1 ! x = (if \<exists>j. j < n \<and> fds' ! j = x then Reserved else t ! x)"
    by simp
  from I l1 show "length t2 = length t" by simp
  show "\<forall>j<n. fds' ! j < length t \<and> t ! (fds' ! j) = Unused \<and>
               (\<exists>f. fs j = Some f \<and> t2 ! (fds' ! j) = Installed f)"
  proof (intro allI impI)
    fix j assume j: "j < n"
    with di have "\<forall>j'. j < j' \<and> j' < n \<longrightarrow> fds' ! j' \<noteq> fds' ! j" by metis
    with I j un l1 have "\<exists>f. fs j = Some f \<and> t2 ! (fds' ! j) = Installed f" by simp
    with un j show "fds' ! j < length t \<and> t ! (fds' ! j) = Unused \<and>
               (\<exists>f. fs j = Some f \<and> t2 ! (fds' ! j) = Installed f)" by simp
  qed
  show "inj_on (\<lambda>j. fds' ! j) {0..<n}"
  proof (rule inj_onI)
    fix a b assume "a \<in> {0..<n}" "b \<in> {0..<n}" "fds' ! a = fds' ! b"
    with di show "a = b" by (metis atLeastLessThan_iff linorder_neqE_nat)
  qed
  show "\<forall>x<length t. (\<forall>j<n. fds' ! j \<noteq> x) \<longrightarrow> t2 ! x = t ! x"
  proof (intro allI impI)
    fix x assume x: "x < length t" and ne: "\<forall>j<n. fds' ! j \<noteq> x"
    with I l1 have "t2 ! x = t1 ! x" by simp
    also from pt x ne have "t1 ! x = t ! x" by auto
    finally show "t2 ! x = t ! x" .
  qed
qed

lemma new_fds_installed:
  assumes l: "length t2 = length t"
    and b: "\<forall>j<n. fds ! j < length t \<and> t ! (fds ! j) = Unused \<and>
               (\<exists>f. fs j = Some f \<and> t2 ! (fds ! j) = Installed f)"
    and c: "inj_on (\<lambda>j. fds ! j) {0..<n}"
    and d: "\<forall>x<length t. (\<forall>j<n. fds ! j \<noteq> x) \<longrightarrow> t2 ! x = t ! x"
  shows "set (new_fds t t2) = (\<lambda>j. fds ! j) ` {0..<n}" and "length (new_fds t t2) = n"
proof -
  show s: "set (new_fds t t2) = (\<lambda>j. fds ! j) ` {0..<n}"
  proof (intro set_eqI iffI)
    fix x assume "x \<in> set (new_fds t t2)"
    then have x: "x < length t" "t ! x = Unused" "t2 ! x \<noteq> Unused"
      by (auto simp: new_fds_def)
    with d have "\<not> (\<forall>j<n. fds ! j \<noteq> x)" by auto
    then show "x \<in> (\<lambda>j. fds ! j) ` {0..<n}" by auto
  next
    fix x assume "x \<in> (\<lambda>j. fds ! j) ` {0..<n}"
    then obtain j where "j < n" "x = fds ! j" by auto
    with b l show "x \<in> set (new_fds t t2)"
      by (auto simp: new_fds_def)
  qed
  have "distinct (new_fds t t2)" by (simp add: new_fds_def)
  then have "length (new_fds t t2) = card (set (new_fds t t2))"
    by (simp add: distinct_card)
  also have "\<dots> = card {0..<n}" using s c by (simp add: card_image)
  finally show "length (new_fds t t2) = n" by simp
qed

lemma ex_install_fds_ok:
  "map_option fst (bus1_message_install_fds ex_bound_message ex_bound_peer ex_bound_kernel) = Some OK"
  by (simp add: bus1_message_install_fds_def ex_bound_counts ex_bound_pool ex_bound_kernel_fields
        ex_kernel_def kmalloc_def get_unused_fd_flags_def bus1_pool_write_kvec_def ALIGN_def Let_def
        ex_bound_message_eq ex_message_def)

lemma ex_install_fds_the:
  "bus1_message_install_fds ex_bound_message ex_bound_peer ex_bound_kernel = Some ex_fds_installed"
  "fst ex_fds_installed = OK"
  using ex_install_fds_ok by (auto simp: ex_fds_installed_def)

lemma ex_install_fds_nomem:
  "bus1_message_install_fds ex_bound_message ex_bound_peer ex_nomem_kernel =
     Some (ERR ENOMEM, ex_bound_message, ex_bound_peer, ex_nomem_kernel)"
  by (simp add: bus1_message_install_fds_def ex_bound_counts kmalloc_def ex_nomem_kernel_def)

text \<open>
  Claim C2: when InstallFds returns an error, the descriptor table, and with it the whole
  kernel state, the peer and the message, is what it was before the call: no slot stays
  reserved. When it returns success, exactly \<^verbatim>\<open>n_fds\<close> slots that were unused are now
  in use, each of them bound to one of the message's files, and every slot that was in
  use before is untouched.
\<close>

theorem install_fds_all_or_nothing:
  assumes "bus1_message_install_fds m peer_info k = Some (r, m', peer_info', k')"
  shows "if r = OK
         then length (fdt k') = length (fdt k) \<and>
              length (new_fds (fdt k) (fdt k')) = unat (n_fds (data m)) \<and>
              (\<forall>fd \<in> set (new_fds (fdt k) (fdt k')).
                  \<exists>j f. j < unat (n_fds (data m)) \<and> files m j = Some f \<and>
                        fdt k' ! fd = Installed f) \<and>
              (\<forall>fd<length (fdt k). fdt k ! fd \<noteq> Unused \<longrightarrow> fdt k' ! fd = fdt k ! fd)
         else m' = m \<and> peer_info' = peer_info \<and> k' = k \<and> new_fds (fdt k) (fdt k') = []"
proof (cases "kmalloc k (n_fds (data m) * 4)")
  case False
  with assms show ?thesis
    by (auto simp: bus1_message_install_fds_def Let_def new_fds_same
          simp del: reserve_fds.simps put_fds_up.simps install_files.simps)
next
  case True
  let ?n = "unat (n_fds (data m))"
  let ?a = "replicate (unat (n_fds (data m) * 4) div 4) (0::nat)"
  from assms True obtain res t1 where res: "reserve_fds ?n 0 ?a (fdt k) = Some (res, t1)"
    by (auto simp: bus1_message_install_fds_def Let_def
          simp del: reserve_fds.simps put_fds_up.simps install_files.simps split: option.splits)
  show ?thesis
  proof (cases res)
    case (Inl e)
    with res reserve_fds_Inl [of ?n 0 ?a "fdt k" e t1] have "t1 = fdt k" by simp
    with assms True res Inl show ?thesis
      by (auto simp: bus1_message_install_fds_def Let_def new_fds_same
          simp del: reserve_fds.simps put_fds_up.simps install_files.simps)
  next
    case (Inr fds)
    with res have rs: "reserve_fds ?n 0 ?a (fdt k) = Some (Inr fds, t1)" by simp
    from assms True rs obtain sl where sl: "slice m = Some sl"
      by (auto simp: bus1_message_install_fds_def Let_def
          simp del: reserve_fds.simps put_fds_up.simps install_files.simps split: option.splits)
    let ?vec = "\<lparr>iov_base = Fds fds, iov_len = n_fds (data m) * 4\<rparr>"
    let ?off = "ALIGN (n_bytes (data m)) 8 + ALIGN (n_handles (data m) * 8) 8"
    show ?thesis
    proof (cases "bus1_pool_write_kvec (pool peer_info) sl ?off ?vec (n_fds (data m) * 4)")
      case (Inl e)
      with assms True rs sl reserve_then_release [OF rs] show ?thesis
        by (auto simp: bus1_message_install_fds_def Let_def new_fds_same
          simp del: reserve_fds.simps put_fds_up.simps install_files.simps)
    next
      case (Inr p)
      with assms True rs sl obtain t2 refs where
        inst: "install_files ?n 0 fds (files m) t1 (f_count k) = Some (t2, refs)"
        and r: "r = OK" and k': "k' = k\<lparr>fdt := t2, f_count := refs\<rparr>"
        by (auto simp: bus1_message_install_fds_def Let_def
          simp del: reserve_fds.simps put_fds_up.simps install_files.simps split: option.splits)
      note T = reserve_then_install [OF rs inst]
      note N = new_fds_installed [OF T]
      have a: "length (fdt k') = length (fdt k)" using T(1) k' by simp
      have b: "length (new_fds (fdt k) (fdt k')) = ?n" using N(2) k' by simp
      have c: "\<forall>fd \<in> set (new_fds (fdt k) (fdt k')).
                  \<exists>j f. j < ?n \<and> files m j = Some f \<and> fdt k' ! fd = Installed f"
      proof
        fix fd assume "fd \<in> set (new_fds (fdt k) (fdt k'))"
        with N(1) k' obtain j where j: "j < ?n" "fd = fds ! j" by auto
        with T(2) k' show "\<exists>j f. j < ?n \<and> files m j = Some f \<and> fdt k' ! fd = Installed f"
          by auto
      qed
      have d: "\<forall>fd<length (fdt k). fdt k ! fd \<noteq> Unused \<longrightarrow> fdt k' ! fd = fdt k ! fd"
      proof (intro allI impI)
        fix fd assume fd: "fd < length (fdt k)" "fdt k ! fd \<noteq> Unused"
        with T(2) have "\<forall>j<?n. fds ! j \<noteq> fd" by auto
        with T(4) fd k' show "fdt k' ! fd = fdt k ! fd" by simp
      qed
      from r a b c d show ?thesis by simp
    qed
  qed
qed

theorem install_fds_all_or_nothing_witness:
  "bus1_message_install_fds ex_bound_message ex_bound_peer ex_bound_kernel = Some ex_fds_installed \<and>
   fst ex_fds_installed = OK \<and>
   length (new_fds (fdt ex_bound_kernel) (fdt (snd (snd (snd ex_fds_installed))))) = 2 \<and>
   bus1_message_install_fds ex_bound_message ex_bound_peer ex_nomem_kernel =
     Some (ERR ENOMEM, ex_bound_message, ex_bound_peer, ex_nomem_kernel) \<and>
   new_fds (fdt ex_nomem_kernel) (fdt ex_nomem_kernel) = []"
proof -
  let ?E = ex_fds_installed
  have h: "bus1_message_install_fds ex_bound_message ex_bound_peer ex_bound_kernel =
             Some (OK, fst (snd ?E), fst (snd (snd ?E)), snd (snd (snd ?E)))"
    using ex_install_fds_the by (metis prod.collapse)
  from install_fds_all_or_nothing [OF h]
  have "length (new_fds (fdt ex_bound_kernel) (fdt (snd (snd (snd ?E))))) = 2"
    by (simp add: ex_bound_counts)
  moreover from install_fds_all_or_nothing [OF ex_install_fds_nomem]
  have "new_fds (fdt ex_nomem_kernel) (fdt ex_nomem_kernel) = []" by simp
  ultimately show ?thesis using ex_install_fds_the ex_install_fds_nomem by simp
qed

lemma ex_full_fields:
  "fdt ex_full_kernel = [Installed 0, Installed 1, Installed 2, Unused]"
  "kmalloc_limit ex_full_kernel = 4096"
  by (simp_all add: ex_full_kernel_def ex_bound_kernel_fields)

lemma ex_install_fds_full:
  "bus1_message_install_fds ex_bound_message ex_bound_peer ex_full_kernel =
     Some (ERR EMFILE, ex_bound_message, ex_bound_peer, ex_full_kernel)"
proof -
  have "bus1_message_install_fds ex_bound_message ex_bound_peer ex_full_kernel =
          Some (ERR EMFILE, ex_bound_message, ex_bound_peer,
                ex_full_kernel\<lparr>fdt := fdt ex_full_kernel\<rparr>)"
    by (simp add: bus1_message_install_fds_def ex_bound_counts kmalloc_def ex_full_fields
          get_unused_fd_flags_def put_unused_fd_def Let_def)
  then show ?thesis by simp
qed

lemma ex_bound_3fds_eq:
  "ex_bound_3fds =
     (OK, fst (snd ex_bound_3fds), fst (snd (snd ex_bound_3fds)), snd (snd (snd ex_bound_3fds)))"
  "slice (fst (snd ex_bound_3fds)) = Some \<lparr>ps_offset = 0, ps_size = 8\<rparr>"
  "user (fst (snd ex_bound_3fds)) = Some 1000"
  "n_fds (data (fst (snd ex_bound_3fds))) = 3"
  by (simp_all add: ex_bound_3fds_def bus1_message_allocate_locked_def ex_message_3fds_def
        ex_message_def ex_peer_def bus1_user_quota_charge_def bus1_pool_alloc_def slice_size_def
        ALIGN_def Let_def bus1_user_ref_def)

lemma ex_install_fds_3fds:
  "map_option fst (bus1_message_install_fds (fst (snd ex_bound_3fds))
      (fst (snd (snd ex_bound_3fds))) (snd (snd (snd ex_bound_3fds)))) = Some (ERR EFAULT)"
  by (simp add: ex_bound_3fds_def bus1_message_allocate_locked_def ex_message_3fds_def
        ex_message_def ex_peer_def ex_kernel_def bus1_user_quota_charge_def bus1_pool_alloc_def
        slice_size_def ALIGN_def Let_def bus1_user_ref_def bus1_message_install_fds_def
        kmalloc_def get_unused_fd_flags_def bus1_pool_write_kvec_def)

lemma ex_full_reservation_fails:
  "reserve_fds (unat (n_fds (data ex_bound_message))) 0
     (replicate (unat (n_fds (data ex_bound_message) * 4) div 4) 0) (fdt ex_full_kernel) =
   Some (Inl EMFILE, fdt ex_full_kernel)"
  by (simp add: ex_bound_counts ex_full_fields get_unused_fd_flags_def put_unused_fd_def)

lemma ex_bound_3fds_kernel:
  "kmalloc_limit (snd (snd (snd ex_bound_3fds))) = 4096"
  by (simp add: ex_bound_3fds_def bus1_message_allocate_locked_def ex_message_3fds_def
        ex_message_def ex_peer_def bus1_user_quota_charge_def bus1_pool_alloc_def slice_size_def
        ALIGN_def Let_def bus1_user_ref_def ex_kernel_def)

lemma ex_kmalloc:
  "\<not> kmalloc ex_nomem_kernel (n_fds (data ex_bound_message) * 4)"
  "kmalloc ex_full_kernel (n_fds (data ex_bound_message) * 4)"
  "kmalloc (snd (snd (snd ex_bound_3fds))) (n_fds (data (fst (snd ex_bound_3fds))) * 4)"
  by (simp_all add: kmalloc_def ex_nomem_kernel_def ex_full_fields ex_bound_counts
        ex_bound_3fds_eq(4) ex_bound_3fds_kernel)

text \<open>
  Claim C6 names two errors for InstallFds: that of a failed slot reservation
  (ResourceExhausted) and that of a failed write into the pool (WriteFailure). Lines 243
  to 245 return a third, \<^verbatim>\<open>-ENOMEM\<close>, when the array for the descriptor numbers cannot
  be allocated. As amended, by cause: an error InstallFds returns is \<^verbatim>\<open>-ENOMEM\<close> with
  \<^verbatim>\<open>kmalloc\<close> having failed, or it is the error of the call of
  \<^verbatim>\<open>get_unused_fd_flags\<close> that failed after \<open>j < n_fds\<close> reservations went through,
  or it is the error of \<^verbatim>\<open>bus1_pool_write_kvec\<close> for the \<^verbatim>\<open>n_fds\<close> reserved numbers
  at \<^verbatim>\<open>align8(n_bytes) + align8(n_handles * 8)\<close>; there is no other error.
\<close>

theorem install_fds_errors:
  assumes "bus1_message_install_fds m peer_info k = Some (ERR e, m', peer_info', k')"
  shows "(\<not> kmalloc k (n_fds (data m) * 4) \<and> e = ENOMEM) \<or>
         (kmalloc k (n_fds (data m) * 4) \<and>
          (\<exists>j fds t. j < unat (n_fds (data m)) \<and>
              reserve_fds j 0 (replicate (unat (n_fds (data m) * 4) div 4) 0) (fdt k) =
                Some (Inr fds, t) \<and>
              get_unused_fd_flags t = Inl e)) \<or>
         (kmalloc k (n_fds (data m) * 4) \<and>
          (\<exists>fds t sl.
              reserve_fds (unat (n_fds (data m))) 0
                (replicate (unat (n_fds (data m) * 4) div 4) 0) (fdt k) = Some (Inr fds, t) \<and>
              slice m = Some sl \<and>
              bus1_pool_write_kvec (pool peer_info) sl
                (ALIGN (n_bytes (data m)) 8 + ALIGN (n_handles (data m) * 8) 8)
                \<lparr>iov_base = Fds fds, iov_len = n_fds (data m) * 4\<rparr>
                (n_fds (data m) * 4) = Inl e))"
proof (cases "kmalloc k (n_fds (data m) * 4)")
  case False
  with assms show ?thesis
    by (auto simp: bus1_message_install_fds_def Let_def
          simp del: reserve_fds.simps put_fds_up.simps install_files.simps)
next
  case True
  let ?n = "unat (n_fds (data m))"
  let ?a = "replicate (unat (n_fds (data m) * 4) div 4) (0::nat)"
  from assms True obtain res t1 where res: "reserve_fds ?n 0 ?a (fdt k) = Some (res, t1)"
    by (auto simp: bus1_message_install_fds_def Let_def
          simp del: reserve_fds.simps put_fds_up.simps install_files.simps split: option.splits)
  show ?thesis
  proof (cases res)
    case (Inl r)
    with assms True res have "r = e"
      by (auto simp: bus1_message_install_fds_def Let_def
            simp del: reserve_fds.simps put_fds_up.simps install_files.simps)
    with res Inl have "reserve_fds ?n 0 ?a (fdt k) = Some (Inl e, t1)" by simp
    from reserve_fds_Inl_cause [OF this] True show ?thesis by blast
  next
    case (Inr fds)
    with res have rs: "reserve_fds ?n 0 ?a (fdt k) = Some (Inr fds, t1)" by simp
    from assms True rs obtain sl where sl: "slice m = Some sl"
      by (auto simp: bus1_message_install_fds_def Let_def
            simp del: reserve_fds.simps put_fds_up.simps install_files.simps split: option.splits)
    let ?vec = "\<lparr>iov_base = Fds fds, iov_len = n_fds (data m) * 4\<rparr>"
    let ?off = "ALIGN (n_bytes (data m)) 8 + ALIGN (n_handles (data m) * 8) 8"
    show ?thesis
    proof (cases "bus1_pool_write_kvec (pool peer_info) sl ?off ?vec (n_fds (data m) * 4)")
      case (Inl r)
      with assms True rs sl have "r = e"
        by (auto simp: bus1_message_install_fds_def Let_def
              simp del: reserve_fds.simps put_fds_up.simps install_files.simps)
      with Inl rs sl True show ?thesis by blast
    next
      case (Inr p)
      with assms True rs sl have False
        by (auto simp: bus1_message_install_fds_def Let_def
              simp del: reserve_fds.simps put_fds_up.simps install_files.simps
              split: option.splits)
      then show ?thesis ..
    qed
  qed
qed

theorem install_fds_errors_witness:
  "bus1_message_install_fds ex_bound_message ex_bound_peer ex_nomem_kernel =
     Some (ERR ENOMEM, ex_bound_message, ex_bound_peer, ex_nomem_kernel) \<and>
   \<not> kmalloc ex_nomem_kernel (n_fds (data ex_bound_message) * 4) \<and>
   bus1_message_install_fds ex_bound_message ex_bound_peer ex_full_kernel =
     Some (ERR EMFILE, ex_bound_message, ex_bound_peer, ex_full_kernel) \<and>
   (\<exists>j fds t. j < unat (n_fds (data ex_bound_message)) \<and>
       reserve_fds j 0 (replicate (unat (n_fds (data ex_bound_message) * 4) div 4) 0)
         (fdt ex_full_kernel) = Some (Inr fds, t) \<and>
       get_unused_fd_flags t = Inl EMFILE) \<and>
   map_option fst (bus1_message_install_fds (fst (snd ex_bound_3fds))
      (fst (snd (snd ex_bound_3fds))) (snd (snd (snd ex_bound_3fds)))) = Some (ERR EFAULT) \<and>
   (\<exists>fds t sl.
       reserve_fds (unat (n_fds (data (fst (snd ex_bound_3fds))))) 0
         (replicate (unat (n_fds (data (fst (snd ex_bound_3fds))) * 4) div 4) 0)
         (fdt (snd (snd (snd ex_bound_3fds)))) = Some (Inr fds, t) \<and>
       slice (fst (snd ex_bound_3fds)) = Some sl \<and>
       bus1_pool_write_kvec (pool (fst (snd (snd ex_bound_3fds)))) sl
         (ALIGN (n_bytes (data (fst (snd ex_bound_3fds)))) 8 +
          ALIGN (n_handles (data (fst (snd ex_bound_3fds))) * 8) 8)
         \<lparr>iov_base = Fds fds, iov_len = n_fds (data (fst (snd ex_bound_3fds))) * 4\<rparr>
         (n_fds (data (fst (snd ex_bound_3fds))) * 4) = Inl EFAULT)"
proof -
  let ?m = "fst (snd ex_bound_3fds)" and ?p = "fst (snd (snd ex_bound_3fds))"
    and ?k = "snd (snd (snd ex_bound_3fds))"
  from install_fds_errors [OF ex_install_fds_nomem] ex_kmalloc(1)
  have a: "\<not> kmalloc ex_nomem_kernel (n_fds (data ex_bound_message) * 4)" by blast
  from install_fds_errors [OF ex_install_fds_full] ex_kmalloc(2) ex_full_reservation_fails
  have b: "\<exists>j fds t. j < unat (n_fds (data ex_bound_message)) \<and>
       reserve_fds j 0 (replicate (unat (n_fds (data ex_bound_message) * 4) div 4) 0)
         (fdt ex_full_kernel) = Some (Inr fds, t) \<and>
       get_unused_fd_flags t = Inl EMFILE"
    by (auto simp del: reserve_fds.simps)
  obtain x where x: "bus1_message_install_fds ?m ?p ?k = Some x" "fst x = ERR EFAULT"
    using ex_install_fds_3fds by auto
  then have h: "bus1_message_install_fds ?m ?p ?k =
                  Some (ERR EFAULT, fst (snd x), fst (snd (snd x)), snd (snd (snd x)))"
    by (metis prod.collapse)
  have ne: "get_unused_fd_flags t \<noteq> Inl EFAULT" for t
    using get_unused_fd_flags_Inl [of t EFAULT] by auto
  from install_fds_errors [OF h] ex_kmalloc(3) ne
  have c: "\<exists>fds t sl.
       reserve_fds (unat (n_fds (data ?m))) 0
         (replicate (unat (n_fds (data ?m) * 4) div 4) 0) (fdt ?k) = Some (Inr fds, t) \<and>
       slice ?m = Some sl \<and>
       bus1_pool_write_kvec (pool ?p) sl
         (ALIGN (n_bytes (data ?m)) 8 + ALIGN (n_handles (data ?m) * 8) 8)
         \<lparr>iov_base = Fds fds, iov_len = n_fds (data ?m) * 4\<rparr>
         (n_fds (data ?m) * 4) = Inl EFAULT"
    by (auto simp del: reserve_fds.simps)
  from a b c ex_install_fds_nomem ex_install_fds_full ex_install_fds_3fds
  show ?thesis by (simp del: reserve_fds.simps)
qed

text \<open>
  The bound message of the scenario, when \<^verbatim>\<open>kmalloc\<close> cannot give the 8 bytes of its
  two descriptor numbers: InstallFds returns \<^verbatim>\<open>-ENOMEM\<close>, which is neither of the two
  errors of claim C6.
\<close>

theorem install_fds_enomem_counterexample:
  "bus1_message_install_fds ex_bound_message ex_bound_peer ex_nomem_kernel =
     Some (ERR ENOMEM, ex_bound_message, ex_bound_peer, ex_nomem_kernel) \<and>
   ERR ENOMEM \<noteq> OK \<and> ERR ENOMEM \<noteq> ERR EMFILE \<and> ERR ENOMEM \<noteq> ERR EFAULT \<and>
   slice ex_bound_message \<noteq> None \<and> user ex_bound_message \<noteq> None"
proof -
  have "slice ex_bound_message \<noteq> None" "user ex_bound_message \<noteq> None"
    by (simp_all add: ex_bound_message_eq)
  with ex_install_fds_nomem show ?thesis by simp
qed


end
